theory Spec2Isabelle
  imports Complex_Main "HOL-Library.AList"
begin

section \<open>Reads, libraries and options\<close>

text \<open>
  The pair-orientation flags of \<^verbatim>\<open>breakdancer::pair_orientation_flag\<close>, as
  \<^verbatim>\<open>BreakDancer.cpp\<close> names them.
\<close>

datatype pair_orientation_flag =
    NA | NORMAL_FR | NORMAL_RF
  | ARP_FR_big_insert | ARP_FR_small_insert
  | ARP_RF | ARP_FF | ARP_RR
  | ARP_CTX
  | MATE_UNMAPPED | UNMAPPED

datatype strand = FWD | REV

text \<open>
  A read carries the fields that \<^verbatim>\<open>BreakDancer.cpp\<close> asks of
  \<^verbatim>\<open>breakdancer::Read\<close>. The C++ \<^verbatim>\<open>int\<close> values are unbounded integers
  here: signed overflow is undefined in C++ and no property below depends on it.
\<close>

record read =
  tid :: int
  pos :: int
  isize :: int
  bdflag :: pair_orientation_flag
  bdqual :: int
  query_name :: string
  query_sequence :: string
  quality_string :: string
  query_length :: int
  ori :: strand
  lib_index :: nat
  readgroup :: string

definition abs_isize :: "read \<Rightarrow> int" where
  "abs_isize aln = \<bar>isize aln\<bar>"

definition set_bdflag :: "pair_orientation_flag \<Rightarrow> read \<Rightarrow> read" where
  "set_bdflag f aln = aln\<lparr>bdflag := f\<rparr>"

definition set_lib_index :: "nat \<Rightarrow> read \<Rightarrow> read" where
  "set_lib_index i aln = aln\<lparr>lib_index := i\<rparr>"

text \<open>
  \<^verbatim>\<open>LibraryConfig\<close> is declared outside the two source files; its fields are the
  ones the code reads. The insert-size cutoffs and the mean insert size are numbers
  that an \<^verbatim>\<open>int\<close> is compared with or multiplied by, taken as reals.
\<close>

record library_config =
  index :: nat
  name :: string
  bam_file :: string
  min_mapping_quality :: int
  uppercutoff :: real
  lowercutoff :: real
  mean_insertsize :: real

text \<open>
  \<^verbatim>\<open>Options\<close> is declared outside the two source files; these are the options
  that \<^verbatim>\<open>BreakDancer.cpp\<close> reads. \<^verbatim>\<open>opts_buffer_size\<close> is \<^verbatim>\<open>_opts.buffer_size\<close>,
  renamed apart from the member \<^verbatim>\<open>_buffer_size\<close> of the sweep state. \<^verbatim>\<open>SVtype\<close> is
  a map from flags to labels.
\<close>

record options =
  min_map_qual :: int
  CN_lib :: int
  transchr_rearrange :: bool
  max_sd :: int
  Illumina_long_insert :: bool
  min_len :: int
  seq_coverage_lim :: real
  opts_buffer_size :: int
  min_read_pair :: int
  fisher :: bool
  score_threshold :: int
  print_AF :: int
  prefix_fastq :: string
  dump_BED :: string
  SVtype :: "pair_orientation_flag \<Rightarrow> string option"

subsection \<open>The flag reclassification of \<^verbatim>\<open>push_read\<close>\<close>

text \<open>
  Lines 176 to 208 of \<^verbatim>\<open>BreakDancer::push_read\<close>: the insert-size rules of the
  long-insert and of the short-insert mode, each a sequence of \<^verbatim>\<open>if\<close> statements
  that test the flag the previous one may have set, followed by the fold of
  \<^verbatim>\<open>ARP_RR\<close> into \<^verbatim>\<open>ARP_FF\<close>.
\<close>

definition reclassify :: "options \<Rightarrow> library_config \<Rightarrow> read \<Rightarrow> read" where
  "reclassify os lib_config aln =
    (let aln4 =
      (if Illumina_long_insert os then
        (let aln1 = (if real_of_int (abs_isize aln) > uppercutoff lib_config \<and> bdflag aln = NORMAL_RF
                     then set_bdflag ARP_RF aln else aln);
             aln2 = (if real_of_int (abs_isize aln1) < uppercutoff lib_config \<and> bdflag aln1 = ARP_RF
                     then set_bdflag NORMAL_RF aln1 else aln1);
             aln3 = (if real_of_int (abs_isize aln2) < lowercutoff lib_config \<and> bdflag aln2 = NORMAL_RF
                     then set_bdflag ARP_FR_small_insert aln2 else aln2)
         in aln3)
       else
        (let aln1 = (if real_of_int (abs_isize aln) > uppercutoff lib_config \<and> bdflag aln = NORMAL_FR
                     then set_bdflag ARP_FR_big_insert aln else aln);
             aln2 = (if real_of_int (abs_isize aln1) < uppercutoff lib_config \<and> bdflag aln1 = ARP_FR_big_insert
                     then set_bdflag NORMAL_FR aln1 else aln1);
             aln3 = (if real_of_int (abs_isize aln2) < lowercutoff lib_config \<and> bdflag aln2 = NORMAL_FR
                     then set_bdflag ARP_FR_small_insert aln2 else aln2);
             aln4 = (if bdflag aln3 = NORMAL_RF then set_bdflag ARP_RF aln3 else aln3)
         in aln4))
     in if bdflag aln4 = ARP_RR then set_bdflag ARP_FF aln4 else aln4)"

section \<open>Ordered maps\<close>

text \<open>
  A \<^verbatim>\<open>std::map\<close> with integer keys is an association list kept in ascending key
  order, so that iteration visits the keys as the C++ iterator does. \<open>map_of\<close> is
  \<^verbatim>\<open>find\<close>; \<open>map_update\<close> is the assignment through \<^verbatim>\<open>operator[]\<close>, which
  replaces the value of a key that is present and enters a new key at its place in
  the order; \<open>map_erase\<close> is \<^verbatim>\<open>erase\<close> by key; \<open>next_key\<close> is the key that an
  iterator standing at \<open>k\<close> reaches when it is incremented, \<open>None\<close> at the end.
\<close>

definition map_update :: "int \<Rightarrow> 'v \<Rightarrow> (int \<times> 'v) list \<Rightarrow> (int \<times> 'v) list" where
  "map_update k v m =
     (if k \<in> fst ` set m then AList.update k v m else insort_key fst (k, v) m)"

definition map_erase :: "int \<Rightarrow> (int \<times> 'v) list \<Rightarrow> (int \<times> 'v) list" where
  "map_erase k m = filter (\<lambda>kv. fst kv \<noteq> k) m"

definition next_key :: "(int \<times> 'v) list \<Rightarrow> int \<Rightarrow> int option" where
  "next_key m k = map_option fst (find (\<lambda>kv. k < fst kv) m)"

definition first_key :: "(int \<times> 'v) list \<Rightarrow> int option" where
  "first_key m = (case m of [] \<Rightarrow> None | kv # _ \<Rightarrow> Some (fst kv))"

type_synonym subgraph = "(int \<times> int) list"
type_synonym graph = "(int \<times> subgraph) list"

text \<open>\<^verbatim>\<open>graph[u]\<close>: the adjacency of \<open>u\<close>, empty when \<open>u\<close> has no entry yet.\<close>

definition subgraph_of :: "graph \<Rightarrow> int \<Rightarrow> subgraph" where
  "subgraph_of g u = (case map_of g u of None \<Rightarrow> [] | Some sg \<Rightarrow> sg)"

text \<open>
  \<^verbatim>\<open>graph[u].erase(v)\<close>. The subscript creates the entry of \<open>u\<close> when the graph has
  none, so the result always has a node \<open>u\<close>.
\<close>

definition erase_edge :: "int \<Rightarrow> int \<Rightarrow> graph \<Rightarrow> graph" where
  "erase_edge u v g = map_update u (map_erase v (subgraph_of g u)) g"

text \<open>\<^verbatim>\<open>++graph[u][v]\<close>.\<close>

definition incr_edge :: "int \<Rightarrow> int \<Rightarrow> graph \<Rightarrow> graph" where
  "incr_edge u v g =
     (let sg = subgraph_of g u;
          w = (case map_of sg v of None \<Rightarrow> 0 | Some w \<Rightarrow> w)
      in map_update u (map_update v (w + 1) sg) g)"

definition edge_weight :: "graph \<Rightarrow> int \<Rightarrow> int \<Rightarrow> int option" where
  "edge_weight g u v = (case map_of g u of None \<Rightarrow> None | Some sg \<Rightarrow> map_of sg v)"

section \<open>The region store\<close>

text \<open>
  \<^verbatim>\<open>ReadRegionData\<close> (the member \<^verbatim>\<open>_rdata\<close>) and \<^verbatim>\<open>BasicRegion\<close> are not among the
  source files: \<^verbatim>\<open>BreakDancer.hpp\<close> shows only that the store holds a vector of region
  pointers (\<^verbatim>\<open>RegionData\<close>), a map from reads to regions (\<^verbatim>\<open>ReadsToRegionsMap\<close>) and
  read counts per region and library (\<^verbatim>\<open>RoiReadCounts\<close>), and \<^verbatim>\<open>BreakDancer.cpp\<close>
  shows which operations are called and with what. The definitions of this section
  are modelled from the specification; each says so and names what it follows.
\<close>

record basic_region =
  region_tid :: int
  region_begin :: int
  region_last :: int
  region_nnormal :: int
  region_reads :: "read list"

type_synonym read_counts = "(string \<times> nat) list"

record rdata =
  regions :: "basic_region option list"
  read_regions :: "(string \<times> int list) list"
  region_accumulator :: read_counts
  flanking_accumulator :: read_counts
  region_counts :: "(read_counts \<times> read_counts) list"

definition empty_rdata :: rdata where
  "empty_rdata = \<lparr>regions = [], read_regions = [], region_accumulator = [],
     flanking_accumulator = [], region_counts = []\<rparr>"

definition bump_count :: "string \<Rightarrow> nat \<Rightarrow> read_counts \<Rightarrow> read_counts" where
  "bump_count k n c = AList.update k (n + (case map_of c k of None \<Rightarrow> 0 | Some m \<Rightarrow> m)) c"

definition merge_counts :: "read_counts \<Rightarrow> read_counts \<Rightarrow> read_counts" where
  "merge_counts acc c = fold (\<lambda>kn. bump_count (fst kn) (snd kn)) acc c"

text \<open>
  Modelled from the spec: \<^verbatim>\<open>ReadRegionData::region_exists\<close>, \<^verbatim>\<open>region\<close> and
  \<^verbatim>\<open>region_reads_range\<close> are not under src. A region is kept under its integer id,
  the position at which it was registered; an id that was never assigned, or whose
  region was retired, has no region. \<open>region\<close> returns \<open>None\<close> where the C++
  reference would dangle.
\<close>

definition region :: "rdata \<Rightarrow> int \<Rightarrow> basic_region option" where
  "region rd i = (if 0 \<le> i \<and> nat i < length (regions rd) then regions rd ! nat i else None)"

definition region_exists :: "rdata \<Rightarrow> int \<Rightarrow> bool" where
  "region_exists rd i = (region rd i \<noteq> None)"

text \<open>
  Modelled from the spec: \<^verbatim>\<open>ReadRegionData::num_reads_in_region\<close> is not under src.
  The number of reads the region still owns.
\<close>

definition num_reads_in_region :: "rdata \<Rightarrow> int \<Rightarrow> nat option" where
  "num_reads_in_region rd i = map_option (\<lambda>r. length (region_reads r)) (region rd i)"

text \<open>
  Modelled from the spec: \<^verbatim>\<open>ReadRegionData::incr_normal_read_count\<close>,
  \<^verbatim>\<open>clear_region_accumulator\<close> and \<^verbatim>\<open>clear_flanking_region_accumulator\<close> are not under
  src. The store has two scratch accumulators of normal-read counts, keyed by library
  name or by source file as \<^verbatim>\<open>push_read\<close> chooses; a normal read bumps both and each
  is cleared on its own.
\<close>

definition incr_normal_read_count :: "string \<Rightarrow> rdata \<Rightarrow> rdata" where
  "incr_normal_read_count key rd =
     rd\<lparr>region_accumulator := bump_count key 1 (region_accumulator rd),
        flanking_accumulator := bump_count key 1 (flanking_accumulator rd)\<rparr>"

definition clear_region_accumulator :: "rdata \<Rightarrow> rdata" where
  "clear_region_accumulator rd = rd\<lparr>region_accumulator := []\<rparr>"

definition clear_flanking_region_accumulator :: "rdata \<Rightarrow> rdata" where
  "clear_flanking_region_accumulator rd = rd\<lparr>flanking_accumulator := []\<rparr>"

text \<open>
  Modelled from the spec: \<^verbatim>\<open>ReadRegionData::add_region\<close> is not under src. Registering
  a region assigns it the next id, records its bounds and its count of normal reads,
  takes ownership of its reads, enters each read's query name in the reverse lookup
  under the new id, and folds the scratch accumulators into the entry of the new
  region.
\<close>

definition register_read :: "int \<Rightarrow> read \<Rightarrow> (string \<times> int list) list \<Rightarrow> (string \<times> int list) list" where
  "register_read i r m =
     AList.update (query_name r) ((case map_of m (query_name r) of None \<Rightarrow> [] | Some ids \<Rightarrow> ids) @ [i]) m"

definition add_region :: "int \<Rightarrow> int \<Rightarrow> int \<Rightarrow> int \<Rightarrow> read list \<Rightarrow> rdata \<Rightarrow> rdata" where
  "add_region start_tid start_pos end_pos nnormal rs rd =
     rd\<lparr>regions := regions rd @
           [Some \<lparr>region_tid = start_tid, region_begin = start_pos, region_last = end_pos,
                  region_nnormal = nnormal, region_reads = rs\<rparr>],
        read_regions := fold (register_read (int (length (regions rd)))) rs (read_regions rd),
        region_counts := region_counts rd @ [(region_accumulator rd, flanking_accumulator rd)]\<rparr>"

text \<open>
  Modelled from the spec: \<^verbatim>\<open>ReadRegionData::collapse_accumulated_data_into_last_region\<close>
  is not under src. The data accumulated for a discarded region is merged into the
  entry of the previous region, the one registered last, when there is one; the reads
  of the discarded region are released, so the reverse lookup forgets their names. No
  region is added or removed.
\<close>

definition collapse_accumulated_data_into_last_region :: "read list \<Rightarrow> rdata \<Rightarrow> rdata" where
  "collapse_accumulated_data_into_last_region rs rd =
     rd\<lparr>read_regions := fold (\<lambda>r. AList.delete (query_name r)) rs (read_regions rd),
        region_counts :=
          (case rev (region_counts rd) of
             [] \<Rightarrow> []
           | c # cs \<Rightarrow> rev cs @ [(merge_counts (region_accumulator rd) (fst c),
                                  merge_counts (flanking_accumulator rd) (snd c))])\<rparr>"

text \<open>
  Modelled from the spec: \<^verbatim>\<open>ReadRegionData::remove_reads_in_region_if\<close> is not under
  src. It removes from the read vector of region \<open>i\<close> every read that satisfies the
  predicate and leaves every other region as it is.
\<close>

definition remove_reads_in_region_if :: "int \<Rightarrow> (read \<Rightarrow> bool) \<Rightarrow> rdata \<Rightarrow> rdata" where
  "remove_reads_in_region_if i pred rd =
     (case region rd i of
        None \<Rightarrow> rd
      | Some r \<Rightarrow>
          rd\<lparr>regions := (regions rd)[nat i :=
                Some (r\<lparr>region_reads := filter (\<lambda>x. \<not> pred x) (region_reads r)\<rparr>)]\<rparr>)"

text \<open>
  Modelled from the spec: \<^verbatim>\<open>ReadRegionData::erase_read\<close> is not under src. A consumed
  read is released: the reverse lookup forgets its name, and with it the mate-pair link
  it made between two regions.
\<close>

definition erase_read :: "string \<Rightarrow> rdata \<Rightarrow> rdata" where
  "erase_read qn rd = rd\<lparr>read_regions := AList.delete qn (read_regions rd)\<rparr>"

text \<open>
  Modelled from the spec: \<^verbatim>\<open>ReadRegionData::clear_region\<close> is not under src. The region
  is erased along with its reads; its id is not used again.
\<close>

definition clear_region :: "int \<Rightarrow> rdata \<Rightarrow> rdata" where
  "clear_region i rd =
     (if region_exists rd i then rd\<lparr>regions := (regions rd)[nat i := None]\<rparr> else rd)"

text \<open>
  Modelled from the spec: \<^verbatim>\<open>ReadRegionData::sum_of_region_sizes\<close> is not under src.
  The sum of the spans of the regions named, a span being the distance from a region's
  start to its end.
\<close>

definition sum_of_region_sizes :: "rdata \<Rightarrow> int list \<Rightarrow> int" where
  "sum_of_region_sizes rd snodes =
     sum_list (map (\<lambda>i. case region rd i of None \<Rightarrow> 0
                         | Some r \<Rightarrow> region_last r - region_begin r) snodes)"

text \<open>
  Modelled from the spec: \<^verbatim>\<open>ReadRegionData::region_graph\<close> is not under src. The graph
  maps a region id to its neighbours and the weight of the edge to each, the number
  of mate-pair links between the two regions; a link is a query name that the reverse
  lookup holds under two regions. Edges are kept in both directions, and two mates in
  one region make a self-loop. The graph is computed from the store as the store is
  when it is asked.
\<close>

definition add_link :: "int list \<Rightarrow> graph \<Rightarrow> graph" where
  "add_link ids g =
     (case ids of
        [r1, r2] \<Rightarrow> (if r1 = r2 then incr_edge r1 r2 g else incr_edge r2 r1 (incr_edge r1 r2 g))
      | _ \<Rightarrow> g)"

definition region_graph :: "rdata \<Rightarrow> graph" where
  "region_graph rd = fold (\<lambda>e. add_link (snd e)) (read_regions rd) []"

section \<open>Floating-point values\<close>

text \<open>
  \<^verbatim>\<open>real_type\<close> is the macro \<^verbatim>\<open>SCORE_FLOAT_TYPE\<close>, which no source file defines, and
  \<^verbatim>\<open>process_sv\<close> and \<^verbatim>\<open>process_breakpoint\<close> also compute in \<^verbatim>\<open>float\<close>. A value of
  either type is a finite number, an infinity or NaN, and the operations give the
  special values as IEEE 754 arithmetic does: an infinity for a non-zero number divided
  by zero, NaN for \<open>0 / 0\<close>, for the difference of two infinities of one sign and for
  the product of zero and an infinity, NaN from any NaN operand, and a comparison with
  NaN false. A finite result is the exact one: its rounding to the format, and a finite
  result too large for the format, are outside the model. Zero has no sign: every
  divisor in the program is converted from an integer, so a zero divisor is positive.
\<close>

datatype cfloat = Fin real | PosInf | NegInf | NaN

fun sign_of :: "cfloat \<Rightarrow> real" where
  "sign_of (Fin x) = sgn x"
| "sign_of PosInf = 1"
| "sign_of NegInf = - 1"
| "sign_of NaN = 0"

definition inf_of_sign :: "real \<Rightarrow> cfloat" where
  "inf_of_sign s = (if 0 < s then PosInf else if s < 0 then NegInf else NaN)"

fun float_neg :: "cfloat \<Rightarrow> cfloat" where
  "float_neg (Fin x) = Fin (- x)"
| "float_neg PosInf = NegInf"
| "float_neg NegInf = PosInf"
| "float_neg NaN = NaN"

fun float_add :: "cfloat \<Rightarrow> cfloat \<Rightarrow> cfloat" where
  "float_add (Fin x) (Fin y) = Fin (x + y)"
| "float_add NaN b = NaN"
| "float_add a NaN = NaN"
| "float_add PosInf NegInf = NaN"
| "float_add NegInf PosInf = NaN"
| "float_add PosInf b = PosInf"
| "float_add NegInf b = NegInf"
| "float_add (Fin x) PosInf = PosInf"
| "float_add (Fin x) NegInf = NegInf"

definition float_sub :: "cfloat \<Rightarrow> cfloat \<Rightarrow> cfloat" where
  "float_sub a b = float_add a (float_neg b)"

fun float_mul :: "cfloat \<Rightarrow> cfloat \<Rightarrow> cfloat" where
  "float_mul (Fin x) (Fin y) = Fin (x * y)"
| "float_mul NaN b = NaN"
| "float_mul a NaN = NaN"
| "float_mul a b = inf_of_sign (sign_of a * sign_of b)"

fun float_div :: "cfloat \<Rightarrow> cfloat \<Rightarrow> cfloat" where
  "float_div (Fin x) (Fin y) = (if y \<noteq> 0 then Fin (x / y) else inf_of_sign (sgn x))"
| "float_div NaN b = NaN"
| "float_div a NaN = NaN"
| "float_div (Fin x) b = Fin 0"
| "float_div a (Fin y) = inf_of_sign (sign_of a * (if y < 0 then - 1 else 1))"
| "float_div a b = NaN"

fun float_less :: "cfloat \<Rightarrow> cfloat \<Rightarrow> bool" where
  "float_less (Fin x) (Fin y) = (x < y)"
| "float_less NaN b = False"
| "float_less a NaN = False"
| "float_less a NegInf = False"
| "float_less PosInf b = False"
| "float_less a b = True"

fun float_le :: "cfloat \<Rightarrow> cfloat \<Rightarrow> bool" where
  "float_le (Fin x) (Fin y) = (x \<le> y)"
| "float_le NaN b = False"
| "float_le a NaN = False"
| "float_le NegInf b = True"
| "float_le a PosInf = True"
| "float_le a b = False"

text \<open>\<^verbatim>\<open>std::max(a, b)\<close>, which is \<^verbatim>\<open>(a < b) ? b : a\<close>.\<close>

definition float_max :: "cfloat \<Rightarrow> cfloat \<Rightarrow> cfloat" where
  "float_max a b = (if float_less a b then b else a)"

text \<open>\<^verbatim>\<open>log\<close>: minus infinity at zero, NaN below it.\<close>

fun float_log :: "cfloat \<Rightarrow> cfloat" where
  "float_log (Fin x) = (if 0 < x then Fin (ln x) else if x = 0 then NegInf else NaN)"
| "float_log PosInf = PosInf"
| "float_log NegInf = NaN"
| "float_log NaN = NaN"

text \<open>
  The conversion \<^verbatim>\<open>int(x)\<close> truncates towards zero. The behaviour is undefined when
  the truncated value is not an \<^verbatim>\<open>int\<close>, taken to have 32 bits, and so for an infinity
  and for NaN: the result is \<open>None\<close> then.
\<close>

definition toward_zero :: "real \<Rightarrow> int" where
  "toward_zero x = (if 0 \<le> x then \<lfloor>x\<rfloor> else \<lceil>x\<rceil>)"

fun c_int :: "cfloat \<Rightarrow> int option" where
  "c_int (Fin x) =
     (if - (2 ^ 31) \<le> toward_zero x \<and> toward_zero x < 2 ^ 31 then Some (toward_zero x) else None)"
| "c_int PosInf = None"
| "c_int NegInf = None"
| "c_int NaN = None"

definition of_c_int :: "int \<Rightarrow> cfloat" where
  "of_c_int n = Fin (real_of_int n)"

section \<open>Collaborators and output\<close>

text \<open>
  \<^verbatim>\<open>SvBuilder\<close> is not among the source files. \<^verbatim>\<open>process_sv\<close> constructs one from
  the regions of a node set and then only reads its members, so the builder is a
  parameter (the field \<open>SvBuilder\<close> of the environment below) and its result a
  record of the members that are read. \<open>observed_reads\<close> holds the keys of the
  container that \<^verbatim>\<open>ObservedReads::count\<close> is asked about. The two-element arrays
  \<^verbatim>\<open>chr\<close>, \<^verbatim>\<open>pos\<close>, \<^verbatim>\<open>fwd_read_count\<close> and \<^verbatim>\<open>rev_read_count\<close> are pairs. The members that only feed
  the copy-number and allele-frequency columns are left out, together with those
  columns.
\<close>

record svb =
  observed_reads :: "string list"
  num_pairs :: int
  flag :: pair_orientation_flag
  flag_counts :: "pair_orientation_flag \<Rightarrow> int"
  svb_chr :: "int \<times> int"
  svb_pos :: "int \<times> int"
  fwd_read_count :: "int \<times> int"
  rev_read_count :: "int \<times> int"
  type_library_readcount :: "pair_orientation_flag \<Rightarrow> (nat \<times> int) list"
  type_library_meanspan :: "pair_orientation_flag \<Rightarrow> nat \<Rightarrow> int"
  support_reads :: "read list"
  reads_to_free :: "string list"

text \<open>
  The environment gathers what the run is given and never changes: the options, the
  configuration (\<^verbatim>\<open>BamConfig\<close>, \<^verbatim>\<open>LibraryInfo\<close>), the target names of the BAM header,
  the builder, and the two distribution tails of the Boost library that
  \<^verbatim>\<open>ComputeProbScore\<close> evaluates: \<open>poisson_tail e lambda k\<close> is
  \<^verbatim>\<open>cdf(complement(poisson(lambda), k))\<close> and \<open>chisq_tail e n x\<close> is
  \<^verbatim>\<open>cdf(complement(chi_squared(n), x))\<close>, each \<open>None\<close> when the evaluation throws.
  \<open>ReadsOut\<close> is the map that \<^verbatim>\<open>dump_fastq\<close> reads with \<^verbatim>\<open>at\<close>.
\<close>

record env =
  opts :: options
  library_config_by_index :: "nat \<Rightarrow> library_config"
  library_config_by_name :: "string \<Rightarrow> library_config"
  readgroup_library :: "string \<Rightarrow> string"
  ReadsOut :: "string \<Rightarrow> string option"
  read_counts_by_flag :: "nat \<Rightarrow> pair_orientation_flag \<Rightarrow> nat"
  covered_reference_length :: nat
  target_name :: "int \<Rightarrow> string"
  SvBuilder :: "nat \<Rightarrow> basic_region list \<Rightarrow> read list list \<Rightarrow> int \<Rightarrow> svb"
  poisson_tail :: "cfloat \<Rightarrow> int \<Rightarrow> cfloat option"
  chisq_tail :: "nat \<Rightarrow> cfloat \<Rightarrow> cfloat option"

text \<open>
  What the program writes. A line of the result table has the columns that
  \<^verbatim>\<open>process_sv\<close> computes from integers and labels: the two breakpoints with their
  strand counts, the type, the quality and the number of pairs. The size column, which
  \<^verbatim>\<open>process_sv\<close> computes in single precision, the \<^verbatim>\<open>sptype\<close> column and the optional
  allele-frequency and copy-number columns, which print floating-point values computed
  by code that is not among the source files, are not part of the record; the name of a
  BED track is without the size for the same reason. The timing lines of
  \<^verbatim>\<open>ScopedTimer\<close> are not modelled.
\<close>

record sv_line =
  line_chr1 :: string
  line_pos1 :: int
  line_fwd1 :: int
  line_rev1 :: int
  line_chr2 :: string
  line_pos2 :: int
  line_fwd2 :: int
  line_rev2 :: int
  line_SVT :: string
  line_PhredQ :: int
  line_pairs :: int

record bed_feature =
  bed_chrom :: string
  bed_start :: int
  bed_end :: int
  bed_name :: string
  bed_score :: int
  bed_strand :: strand
  bed_color :: string

datatype bed_item = BedTrack string int string | BedFeature bed_feature

datatype diagnostic = chi_squared_problem nat cfloat cfloat

record outputs =
  sv_lines :: "sv_line list"
  fastq_records :: "(string \<times> read) list"
  bed_items :: "bed_item list"
  diagnostics :: "diagnostic list"

definition no_output :: outputs where
  "no_output = \<lparr>sv_lines = [], fastq_records = [], bed_items = [], diagnostics = []\<rparr>"

text \<open>
  The ways in which a call can fail to return. Two are exceptions that nothing
  catches, and they carry what had been written when they were thrown: \<^verbatim>\<open>ReadsOut.at\<close>
  throws on a key it does not have, and the Poisson tail is evaluated outside the
  \<^verbatim>\<open>try\<close> block of \<^verbatim>\<open>ComputeProbScore\<close>. The others are undefined behaviour:
  \<^verbatim>\<open>_rdata.region\<close> has no region to refer to; \<^verbatim>\<open>process_sv\<close> fills arrays of two
  elements from a longer node set; \<^verbatim>\<open>build_connection\<close> reads the key under an
  iterator that has reached the end of the graph; a floating-point value that is no
  \<^verbatim>\<open>int\<close> is converted to \<^verbatim>\<open>int\<close>.
\<close>

datatype error =
    out_of_range string outputs
  | boost_exception outputs
  | no_such_region int
  | array_overflow
  | end_iterator_dereferenced
  | undefined_conversion

section \<open>The score\<close>

definition LZERO :: cfloat where
  "LZERO = Fin (- 99)"

definition ZERO :: cfloat where
  "ZERO = Fin (exp (- 99))"

text \<open>
  The loop of \<^verbatim>\<open>ComputeProbScore\<close> over \<^verbatim>\<open>rlibrary_readcount\<close>, a map from library
  index to read count, in key order. The state is \<^verbatim>\<open>logpvalue\<close> and the compensation
  term \<^verbatim>\<open>err\<close>; the result is \<open>None\<close> when the evaluation of a tail throws.
\<close>

fun poisson_sum ::
  "env \<Rightarrow> int \<Rightarrow> pair_orientation_flag \<Rightarrow> (nat \<times> int) list \<Rightarrow> cfloat \<times> cfloat
     \<Rightarrow> (cfloat \<times> cfloat) option" where
  "poisson_sum e total_region_size ty [] (logpvalue, err) = Some (logpvalue, err)"
| "poisson_sum e total_region_size ty ((libindex, readcount) # rest) (logpvalue, err) =
     (let lib_config = library_config_by_index e libindex;
          read_count_for_flag = read_counts_by_flag e (index lib_config) ty;
          lambda0 = float_mul (of_c_int total_region_size)
                      (float_div (Fin (real read_count_for_flag))
                                 (Fin (real (covered_reference_length e))));
          lambda = float_max (Fin (1 / 10 ^ 10)) lambda0
      in case poisson_tail e lambda readcount of
           None \<Rightarrow> None
         | Some tail \<Rightarrow>
             (let tmp_a = float_sub (float_log tail) err;
                  tmp_b = float_add logpvalue tmp_a;
                  err' = float_sub (float_sub tmp_b logpvalue) tmp_a
              in poisson_sum e total_region_size ty rest (tmp_b, err')))"

text \<open>
  \<^verbatim>\<open>ComputeProbScore\<close> returns the log p-value and what it printed on the error
  stream, \<open>None\<close> when an exception leaves it.
\<close>

definition ComputeProbScore ::
  "env \<Rightarrow> int \<Rightarrow> (nat \<times> int) list \<Rightarrow> pair_orientation_flag \<Rightarrow> bool
     \<Rightarrow> (cfloat \<times> diagnostic list) option" where
  "ComputeProbScore e total_region_size rlibrary_readcount ty fisher_opt =
     (case poisson_sum e total_region_size ty rlibrary_readcount (Fin 0, Fin 0) of
        None \<Rightarrow> None
      | Some (logpvalue, err) \<Rightarrow>
          Some (if fisher_opt \<and> float_less logpvalue (Fin 0) then
                  (case chisq_tail e (2 * length rlibrary_readcount)
                          (float_mul (Fin (- 2)) logpvalue) of
                     Some fisherP \<Rightarrow>
                       (if float_less ZERO fisherP then float_log fisherP else LZERO, [])
                   | None \<Rightarrow>
                       (logpvalue,
                        [chi_squared_problem (2 * length rlibrary_readcount) logpvalue
                           (float_mul (Fin (- 2)) logpvalue)]))
                else (logpvalue, [])))"





text \<open>
  Lines 463 and 464 of \<^verbatim>\<open>process_sv\<close>; \<open>None\<close> when the conversion to \<^verbatim>\<open>int\<close> is
  undefined.
\<close>

definition PhredQ_of :: "cfloat \<Rightarrow> int option" where
  "PhredQ_of LogPvalue =
     (let PhredQ_tmp = float_div (float_mul (Fin (- 10)) LogPvalue) (float_log (Fin 10))
      in if float_less (Fin 99) PhredQ_tmp then Some 99
         else c_int (float_add PhredQ_tmp (Fin (1 / 2))))"

section \<open>Reporting a structural variant\<close>

text \<open>
  The test that the BED loop of \<^verbatim>\<open>process_sv\<close> and the loop of \<^verbatim>\<open>dump_fastq\<close> both
  make before they \<^verbatim>\<open>continue\<close>.
\<close>

definition skipped :: "pair_orientation_flag \<Rightarrow> read \<Rightarrow> bool" where
  "skipped f y = (query_sequence y = [] \<or> quality_string y = [] \<or> bdflag y \<noteq> f)"

text \<open>
  \<^verbatim>\<open>BreakDancer::dump_fastq\<close>. \<open>pairing\<close> holds the keys of the local map of that
  name; the records handed to the FASTQ writer, each with the name of its file, are
  added to the output.
\<close>

fun dump_fastq_loop ::
  "env \<Rightarrow> pair_orientation_flag \<Rightarrow> read list \<Rightarrow> string list \<Rightarrow> outputs \<Rightarrow> error + outputs" where
  "dump_fastq_loop e f [] pairing out = Inr out"
| "dump_fastq_loop e f (y # ys) pairing out =
     (if skipped f y then dump_fastq_loop e f ys pairing out
      else
        (let suffix = (if query_name y \<in> set pairing then ''1'' else ''2'');
             key = name (library_config_by_index e (lib_index y)) @ suffix
         in case ReadsOut e key of
              None \<Rightarrow> Inl (out_of_range key out)
            | Some fh_tmp_str \<Rightarrow>
                dump_fastq_loop e f ys (query_name y # pairing)
                  (out\<lparr>fastq_records := fastq_records out @ [(fh_tmp_str, y)]\<rparr>)))"

definition dump_fastq ::
  "env \<Rightarrow> pair_orientation_flag \<Rightarrow> read list \<Rightarrow> outputs \<Rightarrow> error + outputs" where
  "dump_fastq e f srs out = dump_fastq_loop e f srs [] out"

text \<open>Lines 518 to 530: the BED feature of a supporting read.\<close>

definition bed_feature_of :: "env \<Rightarrow> read \<Rightarrow> bed_item" where
  "bed_feature_of e y =
     (let aln_end = pos y - query_length y - 1;
          color = (if ori y = FWD then ''0,0,255'' else ''255,0,0'')
      in BedFeature \<lparr>bed_chrom = ''chr'' @ target_name e (tid y),
            bed_start = pos y, bed_end = aln_end,
            bed_name = query_name y @ ''|'' @ name (library_config_by_index e (lib_index y)),
            bed_score = bdqual y * 10, bed_strand = ori y, bed_color = color\<rparr>)"

text \<open>The loop over the supporting reads that writes the BED features, lines 514 to 531.\<close>

fun bed_loop :: "env \<Rightarrow> pair_orientation_flag \<Rightarrow> read list \<Rightarrow> bed_item list" where
  "bed_loop e f [] = []"
| "bed_loop e f (y # ys) =
     (if skipped f y then bed_loop e f ys else bed_feature_of e y # bed_loop e f ys)"

text \<open>
  The sum \<^verbatim>\<open>diff\<close>, a \<^verbatim>\<open>float\<close>, which both branches on \<^verbatim>\<open>CN_lib\<close> accumulate in the
  same way over the libraries that support the flag of the variant.
\<close>

fun diff_sum :: "env \<Rightarrow> (nat \<Rightarrow> int) \<Rightarrow> (nat \<times> int) list \<Rightarrow> cfloat \<Rightarrow> cfloat" where
  "diff_sum e meanspan [] diff = diff"
| "diff_sum e meanspan ((i, read_count) # rest) diff =
     diff_sum e meanspan rest
       (float_add diff
          (float_sub (of_c_int (meanspan i))
             (float_mul (of_c_int read_count)
                (Fin (mean_insertsize (library_config_by_index e i))))))"

text \<open>
  Lines 405 and 406: padding of the start coordinate. Line 457: the size, \<open>None\<close>
  when the conversion to \<^verbatim>\<open>int\<close> is undefined, as it is when the count of the flag
  is 0. Lines 461 and 462: the score. Line 466: the label of the type.
\<close>

definition padded_start :: "int \<Rightarrow> svb \<Rightarrow> int" where
  "padded_start max_readlen sv =
     (if flag sv \<noteq> ARP_RF \<and> flag sv \<noteq> ARP_RR
         \<and> fst (svb_pos sv) + max_readlen - 5 < snd (svb_pos sv)
      then fst (svb_pos sv) + (max_readlen - 5) else fst (svb_pos sv))"

definition diffspan_of :: "env \<Rightarrow> svb \<Rightarrow> int option" where
  "diffspan_of e sv =
     c_int (float_add
              (float_div
                 (diff_sum e (type_library_meanspan sv (flag sv))
                    (type_library_readcount sv (flag sv)) (Fin 0))
                 (of_c_int (flag_counts sv (flag sv))))
              (Fin (1 / 2)))"

definition score_of ::
  "env \<Rightarrow> int list \<Rightarrow> svb \<Rightarrow> rdata \<Rightarrow> (cfloat \<times> diagnostic list) option" where
  "score_of e snodes sv rd =
     ComputeProbScore e (sum_of_region_sizes rd snodes) (type_library_readcount sv (flag sv))
       (flag sv) (fisher (opts e))"

definition SVT_of :: "env \<Rightarrow> svb \<Rightarrow> string" where
  "SVT_of e sv = (case SVtype (opts e) (flag sv) of None \<Rightarrow> ''UN'' | Some l \<Rightarrow> l)"

text \<open>
  The line that lines 471 to 481 print, with the coordinates converted to base 1 by
  lines 468 and 469.
\<close>

definition table_line :: "env \<Rightarrow> int \<Rightarrow> svb \<Rightarrow> int \<Rightarrow> sv_line" where
  "table_line e max_readlen sv PhredQ =
     \<lparr>line_chr1 = target_name e (fst (svb_chr sv)), line_pos1 = padded_start max_readlen sv + 1,
      line_fwd1 = fst (fwd_read_count sv), line_rev1 = fst (rev_read_count sv),
      line_chr2 = target_name e (snd (svb_chr sv)), line_pos2 = snd (svb_pos sv) + 1,
      line_fwd2 = snd (fwd_read_count sv), line_rev2 = snd (rev_read_count sv),
      line_SVT = SVT_of e sv, line_PhredQ = PhredQ,
      line_pairs = flag_counts sv (flag sv)\<rparr>"

text \<open>Lines 508 to 533: the BED track of a variant, its header and its features.\<close>

definition bed_track :: "env \<Rightarrow> int \<Rightarrow> svb \<Rightarrow> bed_item list" where
  "bed_track e max_readlen sv =
     BedTrack (target_name e (fst (svb_chr sv))) (padded_start max_readlen sv + 1) (SVT_of e sv)
     # bed_loop e (flag sv) (support_reads sv)"

text \<open>
  The body of the test \<^verbatim>\<open>svb.flag_counts[svb.flag] >= _opts.min_read_pair\<close> in
  \<^verbatim>\<open>process_sv\<close>, lines 394 to 534, in the order of the source: the size is converted,
  the score is computed, the quality is converted, and when the quality exceeds the
  threshold the line of the table is written, then the FASTQ records and the BED track
  when they are asked for. An exception of \<^verbatim>\<open>dump_fastq\<close> leaves the line written.
  The calls of \<^verbatim>\<open>accumulate_reads_between_regions\<close> and \<^verbatim>\<open>compute_copy_number\<close> only
  feed the copy-number columns.
\<close>

definition report :: "env \<Rightarrow> int \<Rightarrow> int list \<Rightarrow> svb \<Rightarrow> rdata \<Rightarrow> outputs \<Rightarrow> error + outputs" where
  "report e max_readlen snodes sv rd out =
     (if diffspan_of e sv = None then Inl undefined_conversion
      else
        (case score_of e snodes sv rd of
           None \<Rightarrow> Inl (boost_exception out)
         | Some score \<Rightarrow>
             (let out1 = out\<lparr>diagnostics := diagnostics out @ snd score\<rparr>
              in case PhredQ_of (fst score) of
                   None \<Rightarrow> Inl undefined_conversion
                 | Some PhredQ \<Rightarrow>
                     if PhredQ > score_threshold (opts e) then
                       (let out2 = out1\<lparr>sv_lines := sv_lines out1
                                          @ [table_line e max_readlen sv PhredQ]\<rparr>
                        in case (if prefix_fastq (opts e) \<noteq> []
                                 then dump_fastq e (flag sv) (support_reads sv) out2
                                 else Inr out2) of
                             Inl err \<Rightarrow> Inl err
                           | Inr out3 \<Rightarrow>
                               Inr (out3\<lparr>bed_items :=
                                      (if dump_BED (opts e) \<noteq> []
                                       then bed_items out3 @ bed_track e max_readlen sv
                                       else bed_items out3)\<rparr>))
                     else Inr out1)))"

section \<open>\<^verbatim>\<open>process_sv\<close>\<close>

text \<open>
  The predicate that \<^verbatim>\<open>process_sv\<close> binds under the name \<^verbatim>\<open>is_supportive\<close>: the
  count of the read's query name in \<^verbatim>\<open>svb.observed_reads\<close> equals 0.
\<close>

definition is_supportive :: "svb \<Rightarrow> read \<Rightarrow> bool" where
  "is_supportive sv r = (0 = count_list (observed_reads sv) (query_name r))"

text \<open>
  The contract of the builder on which the removal relies: among the candidate reads,
  \<^verbatim>\<open>is_supportive\<close> holds of exactly those whose query name appears twice, the reads
  that the specification marks observed.
\<close>

definition marks_observed :: "svb \<Rightarrow> read list \<Rightarrow> bool" where
  "marks_observed sv cand =
     (\<forall>r \<in> set cand.
        is_supportive sv r = (count_list (map query_name cand) (query_name r) = 2))"

text \<open>
  The regions that the node set names, in its order; \<open>None\<close> when one of them
  does not exist.
\<close>

fun lookup_regions :: "rdata \<Rightarrow> int list \<Rightarrow> (int + basic_region list)" where
  "lookup_regions rd [] = Inr []"
| "lookup_regions rd (i # is) =
     (case region rd i of
        None \<Rightarrow> Inl i
      | Some r \<Rightarrow> (case lookup_regions rd is of Inl j \<Rightarrow> Inl j | Inr rs \<Rightarrow> Inr (r # rs)))"

text \<open>
  Lines 386 to 541 of \<^verbatim>\<open>process_sv\<close>, what is done once the builder \<open>sv\<close> has
  been constructed: the reads that satisfy \<^verbatim>\<open>is_supportive\<close> are removed from each
  region of the node set; the call returns when there are too few pairs; otherwise the
  variant is reported when its flag has enough pairs, the reads of
  \<^verbatim>\<open>svb.reads_to_free\<close> are erased and the node set is entered in \<^verbatim>\<open>free_nodes\<close>.
  The state is the store, the set \<^verbatim>\<open>free_nodes\<close> (a \<^verbatim>\<open>std::set\<close>, here a sorted list
  without repetition) and the output; \<^verbatim>\<open>_max_readlen\<close> is read from the sweep state.
\<close>

definition consume ::
  "env \<Rightarrow> int \<Rightarrow> int list \<Rightarrow> svb \<Rightarrow> rdata \<times> int list \<times> outputs
     \<Rightarrow> error + (rdata \<times> int list \<times> outputs)" where
  "consume e max_readlen snodes sv st =
     (case st of (rd, free_nodes, out) \<Rightarrow>
      (let rd1 = fold (\<lambda>i. remove_reads_in_region_if i (is_supportive sv)) snodes rd
       in if num_pairs sv < min_read_pair (opts e) then Inr (rd1, free_nodes, out)
          else
            (case (if flag_counts sv (flag sv) \<ge> min_read_pair (opts e)
                   then report e max_readlen snodes sv rd1 out else Inr out) of
               Inl err \<Rightarrow> Inl err
             | Inr out1 \<Rightarrow>
                 Inr (fold erase_read (reads_to_free sv) rd1,
                      fold insort_insert snodes free_nodes,
                      out1))))"

text \<open>
  \<^verbatim>\<open>BreakDancer::process_sv\<close>: the regions of the node set are looked up, the builder
  is constructed from them and from their reads, and the rest follows. Assertions are
  compiled out.
\<close>

definition process_sv ::
  "env \<Rightarrow> int \<Rightarrow> int list \<Rightarrow> rdata \<times> int list \<times> outputs \<Rightarrow> error + (rdata \<times> int list \<times> outputs)" where
  "process_sv e max_readlen snodes st =
     (if length snodes > 2 then Inl array_overflow
      else
        (case lookup_regions (fst st) snodes of
           Inl i \<Rightarrow> Inl (no_such_region i)
         | Inr rs \<Rightarrow>
             consume e max_readlen snodes
               (SvBuilder e (length snodes) rs (map region_reads rs) max_readlen) st))"

section \<open>\<^verbatim>\<open>build_connection\<close>\<close>

text \<open>
  The loops of \<^verbatim>\<open>build_connection\<close> work on the local variable \<^verbatim>\<open>graph\<close>, a copy of
  the graph that \<^verbatim>\<open>_rdata.region_graph()\<close> returned, while \<^verbatim>\<open>process_sv\<close> works on
  the store. The state of the traversal is the local graph, the iterator
  \<^verbatim>\<open>ii_graph\<close> (the key it stands at, \<open>None\<close> at the end), the flag
  \<^verbatim>\<open>need_iter_increment\<close>, and what \<^verbatim>\<open>process_sv\<close> changes.

  \<open>w_log\<close> is not a variable of the program. It records, in order, every edge that
  the innermost loop takes out of the graph and compares with \<^verbatim>\<open>min_read_pair\<close>:
  the tail, the neighbour \<^verbatim>\<open>s1\<close>, the weight \<^verbatim>\<open>nlinks\<close> that was compared, whether the
  edge was passed to \<^verbatim>\<open>process_sv\<close>, and, read from the store at that moment, whether
  the two regions exist and what weight the edge has in the graph of the store.
\<close>

record visit =
  v_tail :: int
  v_s1 :: int
  v_nlinks :: int
  v_processed :: bool
  v_tail_exists :: bool
  v_s1_exists :: bool
  v_live_weight :: "int option"

record walk =
  w_graph :: graph
  w_cursor :: "int option"
  w_need_incr :: bool
  w_rdata :: rdata
  w_free :: "int list"
  w_out :: outputs
  w_log :: "visit list"

definition observe :: "int \<Rightarrow> int \<Rightarrow> int \<Rightarrow> bool \<Rightarrow> rdata \<Rightarrow> visit" where
  "observe tail s1 nlinks processed rd =
     \<lparr>v_tail = tail, v_s1 = s1, v_nlinks = nlinks, v_processed = processed,
      v_tail_exists = region_exists rd tail, v_s1_exists = region_exists rd s1,
      v_live_weight = edge_weight (region_graph rd) tail s1\<rparr>"

text \<open>
  One pass through the body of the innermost loop, lines 319 to 340, for the edge from
  \<open>tail\<close> to \<open>s1\<close> of weight \<open>nlinks\<close>, the first one of the adjacency
  \<^verbatim>\<open>graph_tail\<close>; \<open>rest\<close> are the edges after it. The edge is erased from the graph
  before the tests, as \<^verbatim>\<open>graph_tail.erase(ii_graph_tail++)\<close> does.
\<close>

definition visit_edge ::
  "env \<Rightarrow> int \<Rightarrow> int \<Rightarrow> int \<Rightarrow> int \<Rightarrow> subgraph \<Rightarrow> int list \<Rightarrow> walk \<Rightarrow> error + (int list \<times> walk)" where
  "visit_edge e max_readlen tail s1 nlinks rest newtails w =
     (let w1 = w\<lparr>w_graph := map_update tail rest (w_graph w)\<rparr> in
      if nlinks < min_read_pair (opts e) \<or> \<not> region_exists (w_rdata w1) s1 then
        Inr (newtails, w1\<lparr>w_log := w_log w1 @ [observe tail s1 nlinks False (w_rdata w1)]\<rparr>)
      else
        (let w2 = (if tail \<noteq> s1 then w1\<lparr>w_graph := erase_edge s1 tail (w_graph w1)\<rparr> else w1);
             snodes = (if tail \<noteq> s1 then [min s1 tail, max s1 tail] else [s1])
         in case process_sv e max_readlen snodes (w_rdata w2, w_free w2, w_out w2) of
              Inl err \<Rightarrow> Inl err
            | Inr (rd', free', out') \<Rightarrow>
                Inr (newtails @ [s1],
                     w2\<lparr>w_rdata := rd', w_free := free', w_out := out',
                        w_log := w_log w2 @ [observe tail s1 nlinks True (w_rdata w2)]\<rparr>)))"

text \<open>
  The innermost loop, lines 318 to 341, over the adjacency of \<open>tail\<close>. The loop
  goes on with the rest of the adjacency as it was when the loop began, since nothing
  in the body touches the adjacency of \<open>tail\<close> but the erasure of the current edge
  (\<^verbatim>\<open>graph[s1]\<close> is written only when \<open>s1\<close> differs from \<open>tail\<close>).
\<close>

fun drain_edges ::
  "env \<Rightarrow> int \<Rightarrow> int \<Rightarrow> subgraph \<Rightarrow> int list \<Rightarrow> walk \<Rightarrow> error + (int list \<times> walk)" where
  "drain_edges e max_readlen tail [] newtails w = Inr (newtails, w)"
| "drain_edges e max_readlen tail ((s1, nlinks) # rest) newtails w =
     (case visit_edge e max_readlen tail s1 nlinks rest newtails w of
        Inl err \<Rightarrow> Inl err
      | Inr (newtails', w') \<Rightarrow> drain_edges e max_readlen tail rest newtails' w')"

text \<open>
  Lines 342 to 348: the node of a drained tail is erased; when it is the node under
  \<^verbatim>\<open>ii_graph\<close>, the iterator moves on first. The comparison reads the key under the
  iterator, which is not there to read once the iterator has reached the end.
\<close>

definition erase_node :: "int \<Rightarrow> walk \<Rightarrow> error + walk" where
  "erase_node tail w =
     (case w_cursor w of
        None \<Rightarrow> Inl end_iterator_dereferenced
      | Some k \<Rightarrow>
          if tail = k then
            Inr (w\<lparr>w_graph := map_erase tail (w_graph w),
                   w_cursor := next_key (w_graph w) k,
                   w_need_incr := False\<rparr>)
          else Inr (w\<lparr>w_graph := map_erase tail (w_graph w)\<rparr>))"

text \<open>The body of the \<^verbatim>\<open>for\<close> loop over \<^verbatim>\<open>tails\<close>, lines 304 to 348, for one tail.\<close>

definition walk_tail ::
  "env \<Rightarrow> int \<Rightarrow> int \<Rightarrow> int list \<Rightarrow> walk \<Rightarrow> error + (int list \<times> walk)" where
  "walk_tail e max_readlen tail newtails w =
     (if \<not> region_exists (w_rdata w) tail then Inr (newtails, w)
      else
        (case map_of (w_graph w) tail of
           None \<Rightarrow> Inr (newtails, w)
         | Some graph_tail \<Rightarrow>
             (case drain_edges e max_readlen tail graph_tail newtails w of
                Inl err \<Rightarrow> Inl err
              | Inr (newtails', w1) \<Rightarrow>
                  (case erase_node tail w1 of
                     Inl err \<Rightarrow> Inl err
                   | Inr w2 \<Rightarrow> Inr (newtails', w2)))))"

fun walk_tails ::
  "env \<Rightarrow> int \<Rightarrow> int list \<Rightarrow> int list \<Rightarrow> walk \<Rightarrow> error + (int list \<times> walk)" where
  "walk_tails e max_readlen [] newtails w = Inr (newtails, w)"
| "walk_tails e max_readlen (tail # tails) newtails w =
     (case walk_tail e max_readlen tail newtails w of
        Inl err \<Rightarrow> Inl err
      | Inr (newtails', w') \<Rightarrow> walk_tails e max_readlen tails newtails' w')"

definition edge_count :: "graph \<Rightarrow> nat" where
  "edge_count g = sum_list (map (\<lambda>kv. length (snd kv)) g)"

text \<open>
  The loop \<^verbatim>\<open>while(tails.size() > 0)\<close> ends because every entry of \<^verbatim>\<open>newtails\<close>
  stands for an edge that the pass erased from the graph: the number of edges of the
  graph bounds the number of passes. The lemmas up to the definition of
  \<open>walk_component\<close> establish the bound.
\<close>

lemma edge_count_Cons: "edge_count (kv # g) = length (snd kv) + edge_count g"
  by (simp add: edge_count_def)

lemma edge_count_Nil: "edge_count [] = 0"
  by (simp add: edge_count_def)

lemma edge_count_update:
  "map_of g k = Some sg \<Longrightarrow> edge_count (AList.update k sg' g) + length sg = edge_count g + length sg'"
  by (induction g) (auto simp: edge_count_Cons edge_count_Nil)

lemma edge_count_insort: "edge_count (insort_key fst (k, sg) g) = edge_count g + length sg"
  by (induction g) (auto simp: edge_count_Cons edge_count_Nil)

lemma map_of_in_keys: "map_of g k = Some sg \<Longrightarrow> k \<in> fst ` set g"
  by (metis map_of_eq_None_iff option.distinct(1))

lemma edge_count_pop:
  "map_of g k = Some (x # rest) \<Longrightarrow> Suc (edge_count (map_update k rest g)) = edge_count g"
  using edge_count_update [of g k "x # rest" rest]
  by (simp add: map_update_def map_of_in_keys)

lemma length_map_erase: "length (map_erase v sg) \<le> length sg"
  by (simp add: map_erase_def)

lemma edge_count_erase_edge: "edge_count (erase_edge u v g) \<le> edge_count g"
proof (cases "map_of g u")
  case None
  then have "u \<notin> fst ` set g" by (simp add: map_of_eq_None_iff)
  with None show ?thesis
    by (simp add: erase_edge_def map_update_def subgraph_of_def edge_count_insort map_erase_def)
next
  case (Some sg)
  then show ?thesis
    using edge_count_update [of g u sg "map_erase v sg"] length_map_erase [of v sg]
    by (simp add: erase_edge_def map_update_def subgraph_of_def map_of_in_keys)
qed

lemma edge_count_map_erase: "edge_count (map_erase k g) \<le> edge_count g"
  by (induction g) (auto simp: edge_count_Cons edge_count_Nil map_erase_def)

lemma map_of_insort_key: "map_of (insort_key fst (k, v) m) = (map_of m)(k \<mapsto> v)"
  by (induction m) (auto simp: fun_upd_twist)

lemma map_of_map_update: "map_of (map_update k v m) = (map_of m)(k \<mapsto> v)"
  by (simp add: map_update_def update_conv' map_of_insort_key)

lemma map_of_erase_edge_other: "u \<noteq> t \<Longrightarrow> map_of (erase_edge u v g) t = map_of g t"
  by (simp add: erase_edge_def map_of_map_update)

text \<open>What one pass of the innermost loop does to the local graph.\<close>

lemma visit_edge_graph:
  assumes "visit_edge e mrl tail s1 nlinks rest nt w = Inr (nt', w')"
  shows "w_graph w' = map_update tail rest (w_graph w) \<and> nt' = nt
       \<or> w_graph w' = (if tail \<noteq> s1 then erase_edge s1 tail (map_update tail rest (w_graph w))
                        else map_update tail rest (w_graph w)) \<and> nt' = nt @ [s1]"
  using assms
  by (auto simp: visit_edge_def Let_def split: if_splits sum.splits)

lemma visit_edge_count:
  assumes "map_of (w_graph w) tail = Some ((s1, nlinks) # rest)"
    and "visit_edge e mrl tail s1 nlinks rest nt w = Inr (nt', w')"
  shows "edge_count (w_graph w') + length nt' \<le> edge_count (w_graph w) + length nt
         \<and> map_of (w_graph w') tail = Some rest"
proof -
  let ?g1 = "map_update tail rest (w_graph w)"
  have pop: "Suc (edge_count ?g1) = edge_count (w_graph w)"
    using assms(1) by (simp add: edge_count_pop)
  have le2: "edge_count (erase_edge s1 tail ?g1) \<le> edge_count ?g1"
    by (simp add: edge_count_erase_edge)
  from visit_edge_graph [OF assms(2)] pop le2 show ?thesis
    by (auto simp: map_of_map_update map_of_erase_edge_other)
qed

lemma drain_edges_count:
  "map_of (w_graph w) tail = Some edges \<Longrightarrow>
   drain_edges e mrl tail edges nt w = Inr (nt', w') \<Longrightarrow>
   edge_count (w_graph w') + length nt' \<le> edge_count (w_graph w) + length nt"
proof (induction edges arbitrary: nt w)
  case Nil
  then show ?case by simp
next
  case (Cons x rest)
  obtain s1 nlinks where x: "x = (s1, nlinks)" by (cases x)
  from Cons.prems(2) x obtain nt1 w1 where
    v: "visit_edge e mrl tail s1 nlinks rest nt w = Inr (nt1, w1)" and
    d: "drain_edges e mrl tail rest nt1 w1 = Inr (nt', w')"
    by (auto split: sum.splits)
  from visit_edge_count [OF _ v] Cons.prems(1) x have
    c: "edge_count (w_graph w1) + length nt1 \<le> edge_count (w_graph w) + length nt"
    and m: "map_of (w_graph w1) tail = Some rest" by simp_all
  from Cons.IH [OF m d] c show ?case by linarith
qed

lemma erase_node_count:
  "erase_node tail w = Inr w' \<Longrightarrow> edge_count (w_graph w') \<le> edge_count (w_graph w)"
  by (auto simp: erase_node_def edge_count_map_erase split: option.splits if_splits)

lemma walk_tail_count:
  assumes "walk_tail e mrl tail nt w = Inr (nt', w')"
  shows "edge_count (w_graph w') + length nt' \<le> edge_count (w_graph w) + length nt"
proof (cases "\<not> region_exists (w_rdata w) tail \<or> map_of (w_graph w) tail = None")
  case True
  with assms show ?thesis by (auto simp: walk_tail_def split: if_splits)
next
  case False
  then obtain graph_tail where gt: "map_of (w_graph w) tail = Some graph_tail" by auto
  from assms False gt obtain w1 where
    d: "drain_edges e mrl tail graph_tail nt w = Inr (nt', w1)" and
    r: "erase_node tail w1 = Inr w'"
    by (auto simp: walk_tail_def split: sum.splits)
  from drain_edges_count [OF gt d] erase_node_count [OF r] show ?thesis by linarith
qed

lemma walk_tails_count:
  "walk_tails e mrl tails nt w = Inr (nt', w') \<Longrightarrow>
   edge_count (w_graph w') + length nt' \<le> edge_count (w_graph w) + length nt"
proof (induction tails arbitrary: nt w)
  case Nil
  then show ?case by simp
next
  case (Cons tail tails)
  from Cons.prems obtain nt1 w1 where
    t: "walk_tail e mrl tail nt w = Inr (nt1, w1)" and
    r: "walk_tails e mrl tails nt1 w1 = Inr (nt', w')"
    by (auto split: sum.splits)
  from Cons.IH [OF r] walk_tail_count [OF t] show ?case by linarith
qed

text \<open>
  The loop \<^verbatim>\<open>while(tails.size() > 0)\<close>, lines 300 to 351: each pass runs the
  \<^verbatim>\<open>for\<close> loop over \<^verbatim>\<open>tails\<close> and then swaps in \<^verbatim>\<open>newtails\<close>.
\<close>

function walk_component :: "env \<Rightarrow> int \<Rightarrow> int list \<Rightarrow> walk \<Rightarrow> error + walk" where
  "walk_component e max_readlen tails w =
     (if tails = [] then Inr w
      else
        (case walk_tails e max_readlen tails [] w of
           Inl err \<Rightarrow> Inl err
         | Inr (newtails, w') \<Rightarrow> walk_component e max_readlen newtails w'))"
  by pat_completeness auto
termination
proof (relation "measure (\<lambda>(e, mrl, tails, w). edge_count (w_graph w) + (if tails = [] then 0 else 1))")
  show "wf (measure (\<lambda>(e, mrl, tails, w). edge_count (w_graph w) + (if tails = [] then 0 else 1)))"
    by simp
next
  fix e max_readlen tails w x2 newtails w'
  assume "tails \<noteq> []" and "walk_tails e max_readlen tails [] w = Inr x2" and "(newtails, w') = x2"
  then have "walk_tails e max_readlen tails [] w = Inr (newtails, w')" by simp
  from walk_tails_count [OF this] \<open>tails \<noteq> []\<close>
  show "((e, max_readlen, newtails, w'), (e, max_readlen, tails, w))
        \<in> measure (\<lambda>(e, mrl, tails, w). edge_count (w_graph w) + (if tails = [] then 0 else 1))"
    by (cases newtails) auto
qed

declare walk_component.simps [simp del]

lemma walk_component_Nil: "walk_component e mrl [] w = Inr w"
  using walk_component.simps [of e mrl "[]" w] by simp

lemma walk_component_Cons:
  "tails \<noteq> [] \<Longrightarrow>
   walk_component e mrl tails w =
     (case walk_tails e mrl tails [] w of
        Inl err \<Rightarrow> Inl err
      | Inr (newtails, w') \<Rightarrow> walk_component e mrl newtails w')"
  using walk_component.simps [of e mrl tails w] by simp

text \<open>
  The outer loop, \<^verbatim>\<open>while (ii_graph != graph.end())\<close>, ends because the iterator only
  moves forward through a set of keys that does not grow: every node that
  \<^verbatim>\<open>graph[s1]\<close> creates is a neighbour in the graph already. \<open>nodes_of\<close> is that
  set, the keys of the graph and the neighbours they name.
\<close>

definition nodes_of :: "graph \<Rightarrow> int set" where
  "nodes_of g = fst ` set g \<union> (\<Union>kv\<in>set g. fst ` set (snd kv))"

text \<open>Lines 352 and 353: \<^verbatim>\<open>if (need_iter_increment) ++ii_graph\<close>.\<close>

definition advance :: "walk \<Rightarrow> error + walk" where
  "advance w =
     (if w_need_incr w then
        (case w_cursor w of
           None \<Rightarrow> Inl end_iterator_dereferenced
         | Some k \<Rightarrow> Inr (w\<lparr>w_cursor := next_key (w_graph w) k\<rparr>))
      else Inr w)"

definition walk_measure :: "walk \<Rightarrow> nat" where
  "walk_measure w =
     (case w_cursor w of None \<Rightarrow> 0 | Some k \<Rightarrow> Suc (card {x \<in> nodes_of (w_graph w). k < x}))"

definition cursor_moved :: "int \<Rightarrow> walk \<Rightarrow> bool" where
  "cursor_moved k0 w =
     (if w_need_incr w then w_cursor w = Some k0
      else (case w_cursor w of None \<Rightarrow> True
            | Some k \<Rightarrow> k0 < k \<and> k \<in> fst ` set (w_graph w)))"

lemma finite_nodes_of: "finite (nodes_of g)"
  by (simp add: nodes_of_def)

lemma set_update_subset: "set (AList.update k v m) \<subseteq> insert (k, v) (set m)"
  by (induction m) auto

lemma keys_update: "fst ` set (AList.update k v m) = insert k (fst ` set m)"
  by (induction m) auto

lemma keys_map_update: "fst ` set (map_update k v m) = insert k (fst ` set m)"
  by (simp add: map_update_def keys_update set_insort_key)

lemma set_map_update_subset: "set (map_update k v m) \<subseteq> insert (k, v) (set m)"
  using set_update_subset [of k v m] by (auto simp: map_update_def set_insort_key)

lemma nodes_of_map_update: "nodes_of (map_update k v m) \<subseteq> insert k (fst ` set v \<union> nodes_of m)"
  using set_map_update_subset [of k v m] by (fastforce simp: nodes_of_def)

lemma nodes_of_map_erase: "nodes_of (map_erase k m) \<subseteq> nodes_of m"
  by (auto simp: nodes_of_def map_erase_def)

lemma targets_in_nodes_of: "map_of g u = Some sg \<Longrightarrow> fst ` set sg \<subseteq> nodes_of g"
  by (force simp: nodes_of_def dest!: map_of_SomeD)

lemma key_in_nodes_of: "map_of g u = Some sg \<Longrightarrow> u \<in> nodes_of g"
  by (auto simp: nodes_of_def dest!: map_of_SomeD intro: rev_image_eqI)

lemma nodes_of_erase_edge: "nodes_of (erase_edge u v g) \<subseteq> insert u (nodes_of g)"
proof -
  have "fst ` set (map_erase v (subgraph_of g u)) \<subseteq> nodes_of g"
  proof (cases "map_of g u")
    case None
    then show ?thesis by (simp add: subgraph_of_def map_erase_def)
  next
    case (Some sg)
    with targets_in_nodes_of [OF Some] show ?thesis
      by (auto simp: subgraph_of_def map_erase_def)
  qed
  with nodes_of_map_update [of u "map_erase v (subgraph_of g u)" g] show ?thesis
    by (auto simp: erase_edge_def)
qed

lemma find_SomeD: "find P xs = Some x \<Longrightarrow> P x \<and> x \<in> set xs"
  by (induction xs) (auto split: if_splits)

lemma next_key_Some: "next_key m k = Some k' \<Longrightarrow> k < k' \<and> k' \<in> fst ` set m"
  by (force simp: next_key_def dest!: find_SomeD)

lemma visit_edge_nodes:
  assumes "map_of (w_graph w) tail = Some ((s1, nlinks) # rest)"
    and "visit_edge e mrl tail s1 nlinks rest nt w = Inr (nt', w')"
  shows "nodes_of (w_graph w') \<subseteq> nodes_of (w_graph w)"
proof -
  let ?g1 = "map_update tail rest (w_graph w)"
  have g1: "nodes_of ?g1 \<subseteq> nodes_of (w_graph w)"
    using nodes_of_map_update [of tail rest "w_graph w"] targets_in_nodes_of [OF assms(1)]
      key_in_nodes_of [OF assms(1)] by auto
  have "s1 \<in> nodes_of (w_graph w)" using targets_in_nodes_of [OF assms(1)] by auto
  with g1 nodes_of_erase_edge [of s1 tail ?g1]
  have g2: "nodes_of (erase_edge s1 tail ?g1) \<subseteq> nodes_of (w_graph w)" by auto
  from visit_edge_graph [OF assms(2)] g1 g2 show ?thesis by (auto split: if_splits)
qed

lemma visit_edge_keys:
  assumes "visit_edge e mrl tail s1 nlinks rest nt w = Inr (nt', w')"
  shows "fst ` set (w_graph w) \<subseteq> fst ` set (w_graph w')"
proof -
  have "fst ` set (w_graph w) \<subseteq> fst ` set (map_update tail rest (w_graph w))"
    by (simp add: keys_map_update subset_insertI)
  moreover have "fst ` set (w_graph w) \<subseteq> fst ` set (erase_edge s1 tail (map_update tail rest (w_graph w)))"
    by (simp add: erase_edge_def keys_map_update subset_insertI2 subset_insertI)
  ultimately show ?thesis
    using visit_edge_graph [OF assms] by (metis (full_types))
qed

lemma visit_edge_cursor:
  assumes "visit_edge e mrl tail s1 nlinks rest nt w = Inr (nt', w')"
  shows "w_cursor w' = w_cursor w \<and> w_need_incr w' = w_need_incr w"
  using assms by (auto simp: visit_edge_def Let_def split: if_splits sum.splits)

lemma region_remove_reads:
  "region (remove_reads_in_region_if i p rd) j =
     (if j = i then map_option (\<lambda>r. r\<lparr>region_reads := filter (\<lambda>x. \<not> p x) (region_reads r)\<rparr>) (region rd i)
      else region rd j)"
  by (auto simp: remove_reads_in_region_if_def region_def nth_list_update split: option.splits)

lemma region_exists_remove_reads:
  "region_exists (remove_reads_in_region_if i p rd) j = region_exists rd j"
  by (simp add: region_exists_def region_remove_reads)

lemma region_erase_read: "region (erase_read qn rd) j = region rd j"
  by (simp add: erase_read_def region_def)

lemma region_exists_fold_remove:
  "region_exists (fold (\<lambda>i. remove_reads_in_region_if i p) is rd) j = region_exists rd j"
  by (induction "is" arbitrary: rd) (simp_all add: region_exists_remove_reads)

lemma region_fold_erase_read: "region (fold erase_read qns rd) j = region rd j"
  by (induction qns arbitrary: rd) (simp_all add: region_erase_read)

lemma consume_cases:
  assumes "consume e mrl snodes sv (rd, fr, out) = Inr (rd', fr', out')"
  obtains (early) "num_pairs sv < min_read_pair (opts e)"
      and "rd' = fold (\<lambda>i. remove_reads_in_region_if i (is_supportive sv)) snodes rd"
      and "fr' = fr" and "out' = out"
  | (full) "\<not> num_pairs sv < min_read_pair (opts e)"
      and "rd' = fold erase_read (reads_to_free sv)
                   (fold (\<lambda>i. remove_reads_in_region_if i (is_supportive sv)) snodes rd)"
      and "fr' = fold insort_insert snodes fr"
      and "(if flag_counts sv (flag sv) \<ge> min_read_pair (opts e)
            then report e mrl snodes sv
                   (fold (\<lambda>i. remove_reads_in_region_if i (is_supportive sv)) snodes rd) out
            else Inr out) = Inr out'"
proof (cases "num_pairs sv < min_read_pair (opts e)")
  case True
  with assms show ?thesis by (intro early) (simp_all add: consume_def Let_def)
next
  case False
  let ?rd1 = "fold (\<lambda>i. remove_reads_in_region_if i (is_supportive sv)) snodes rd"
  let ?r = "if flag_counts sv (flag sv) \<ge> min_read_pair (opts e)
            then report e mrl snodes sv ?rd1 out else Inr out"
  from assms False obtain out1 where r: "?r = Inr out1"
    by (cases ?r) (simp_all add: consume_def Let_def)
  with assms False have "rd' = fold erase_read (reads_to_free sv) ?rd1"
    and "fr' = fold insort_insert snodes fr" and "out' = out1"
    by (simp_all add: consume_def Let_def)
  with False r show ?thesis by (intro full) simp_all
qed

lemma process_sv_consume:
  assumes "process_sv e mrl snodes st = Inr r"
  obtains rs where "length snodes \<le> 2" and "lookup_regions (fst st) snodes = Inr rs"
    and "consume e mrl snodes (SvBuilder e (length snodes) rs (map region_reads rs) mrl) st = Inr r"
proof -
  from assms have len: "length snodes \<le> 2"
    by (simp add: process_sv_def split: if_splits)
  with assms obtain rs where "lookup_regions (fst st) snodes = Inr rs"
    by (cases "lookup_regions (fst st) snodes") (simp_all add: process_sv_def)
  with assms len show ?thesis by (intro that [of rs]) (simp_all add: process_sv_def)
qed

lemma consume_region_exists:
  assumes "consume e mrl snodes sv (rd, fr, out) = Inr (rd', fr', out')"
  shows "region_exists rd' j = region_exists rd j"
  using assms
proof (cases rule: consume_cases)
  case early
  then show ?thesis by (simp add: region_exists_fold_remove)
next
  case full
  then have "region_exists rd' j
      = region_exists (fold (\<lambda>i. remove_reads_in_region_if i (is_supportive sv)) snodes rd) j"
    by (simp add: region_exists_def region_fold_erase_read)
  then show ?thesis by (simp add: region_exists_fold_remove)
qed

lemma process_sv_region_exists:
  assumes "process_sv e mrl snodes (rd, fr, out) = Inr (rd', fr', out')"
  shows "region_exists rd' j = region_exists rd j"
  using assms
proof (rule process_sv_consume)
  fix rs
  assume "consume e mrl snodes (SvBuilder e (length snodes) rs (map region_reads rs) mrl)
            (rd, fr, out) = Inr (rd', fr', out')"
  then show ?thesis by (rule consume_region_exists)
qed

lemma visit_edge_cases:
  assumes "visit_edge e mrl tail s1 nlinks rest nt w = Inr (nt', w')"
  obtains (skip) "nlinks < min_read_pair (opts e) \<or> \<not> region_exists (w_rdata w) s1"
      and "nt' = nt"
      and "w' = w\<lparr>w_graph := map_update tail rest (w_graph w),
                   w_log := w_log w @ [observe tail s1 nlinks False (w_rdata w)]\<rparr>"
  | (process) rd' free' out' where
      "\<not> nlinks < min_read_pair (opts e)" and "region_exists (w_rdata w) s1"
      and "process_sv e mrl (if tail \<noteq> s1 then [min s1 tail, max s1 tail] else [s1])
             (w_rdata w, w_free w, w_out w) = Inr (rd', free', out')"
      and "nt' = nt @ [s1]"
      and "w' = w\<lparr>w_graph := (if tail \<noteq> s1 then erase_edge s1 tail (map_update tail rest (w_graph w))
                                else map_update tail rest (w_graph w)),
                   w_rdata := rd', w_free := free', w_out := out',
                   w_log := w_log w @ [observe tail s1 nlinks True (w_rdata w)]\<rparr>"
proof (cases "nlinks < min_read_pair (opts e) \<or> \<not> region_exists (w_rdata w) s1")
  case True
  with assms have "nt' = nt"
    and "w' = w\<lparr>w_graph := map_update tail rest (w_graph w),
                   w_log := w_log w @ [observe tail s1 nlinks False (w_rdata w)]\<rparr>"
    by (simp_all add: visit_edge_def Let_def)
  with True show ?thesis by (rule skip)
next
  case False
  let ?sn = "if tail \<noteq> s1 then [min s1 tail, max s1 tail] else [s1]"
  from assms False obtain r where
    p: "process_sv e mrl ?sn (w_rdata w, w_free w, w_out w) = Inr r"
    by (cases "process_sv e mrl ?sn (w_rdata w, w_free w, w_out w)")
       (simp_all add: visit_edge_def Let_def split: if_splits)
  obtain rd' free' out' where r: "r = (rd', free', out')" by (cases r)
  from assms False p r have "nt' = nt @ [s1]"
    and "w' = w\<lparr>w_graph := (if tail \<noteq> s1 then erase_edge s1 tail (map_update tail rest (w_graph w))
                                else map_update tail rest (w_graph w)),
                   w_rdata := rd', w_free := free', w_out := out',
                   w_log := w_log w @ [observe tail s1 nlinks True (w_rdata w)]\<rparr>"
    by (simp_all add: visit_edge_def Let_def split: if_splits)
  with False p r show ?thesis using process [of rd' free' out'] by simp
qed

lemma visit_edge_region_exists:
  assumes "visit_edge e mrl tail s1 nlinks rest nt w = Inr (nt', w')"
  shows "region_exists (w_rdata w') j = region_exists (w_rdata w) j"
  using assms
proof (cases rule: visit_edge_cases)
  case skip
  then show ?thesis by simp
next
  case (process rd' free' out')
  from process_sv_region_exists [OF process(3)] process(5) show ?thesis by simp
qed

lemma drain_edges_inv:
  assumes step: "\<And>s1 nlinks rest nt w nt' w'.
      \<lbrakk>P w; region_exists (w_rdata w) tail;
       map_of (w_graph w) tail = Some ((s1, nlinks) # rest);
       visit_edge e mrl tail s1 nlinks rest nt w = Inr (nt', w')\<rbrakk> \<Longrightarrow> P w'"
  shows "\<lbrakk>P w; region_exists (w_rdata w) tail; map_of (w_graph w) tail = Some edges;
          drain_edges e mrl tail edges nt w = Inr (nt', w')\<rbrakk> \<Longrightarrow> P w'"
proof (induction edges arbitrary: nt w)
  case Nil
  then show ?case by simp
next
  case (Cons x rest)
  obtain s1 nlinks where x: "x = (s1, nlinks)" by (cases x)
  from Cons.prems(4) x obtain nt1 w1 where
    v: "visit_edge e mrl tail s1 nlinks rest nt w = Inr (nt1, w1)" and
    d: "drain_edges e mrl tail rest nt1 w1 = Inr (nt', w')"
    by (auto split: sum.splits)
  have m: "map_of (w_graph w) tail = Some ((s1, nlinks) # rest)"
    using Cons.prems(3) x by simp
  have "P w1" by (rule step [OF Cons.prems(1,2) m v])
  moreover have "region_exists (w_rdata w1) tail"
    using visit_edge_region_exists [OF v] Cons.prems(2) by simp
  moreover have "map_of (w_graph w1) tail = Some rest"
    using visit_edge_count [OF m v] by simp
  ultimately show ?case using d by (rule Cons.IH)
qed

lemma walk_tail_inv:
  assumes step: "\<And>tail s1 nlinks rest nt w nt' w'.
      \<lbrakk>P w; region_exists (w_rdata w) tail;
       map_of (w_graph w) tail = Some ((s1, nlinks) # rest);
       visit_edge e mrl tail s1 nlinks rest nt w = Inr (nt', w')\<rbrakk> \<Longrightarrow> P w'"
    and erase: "\<And>tail w w'. \<lbrakk>P w; erase_node tail w = Inr w'\<rbrakk> \<Longrightarrow> P w'"
    and "P w" and "walk_tail e mrl tail nt w = Inr (nt', w')"
  shows "P w'"
proof (cases "\<not> region_exists (w_rdata w) tail \<or> map_of (w_graph w) tail = None")
  case True
  with assms(3,4) show ?thesis by (auto simp: walk_tail_def split: if_splits)
next
  case False
  then obtain graph_tail where gt: "map_of (w_graph w) tail = Some graph_tail"
    and ex: "region_exists (w_rdata w) tail" by auto
  from assms(4) ex gt obtain w1 where
    d: "drain_edges e mrl tail graph_tail nt w = Inr (nt', w1)" and
    r: "erase_node tail w1 = Inr w'"
    by (auto simp: walk_tail_def split: sum.splits)
  have "P w1" by (rule drain_edges_inv [where P = P, OF step assms(3) ex gt d])
  then show ?thesis using r by (rule erase)
qed

lemma walk_tails_inv:
  assumes step: "\<And>tail s1 nlinks rest nt w nt' w'.
      \<lbrakk>P w; region_exists (w_rdata w) tail;
       map_of (w_graph w) tail = Some ((s1, nlinks) # rest);
       visit_edge e mrl tail s1 nlinks rest nt w = Inr (nt', w')\<rbrakk> \<Longrightarrow> P w'"
    and erase: "\<And>tail w w'. \<lbrakk>P w; erase_node tail w = Inr w'\<rbrakk> \<Longrightarrow> P w'"
  shows "\<lbrakk>P w; walk_tails e mrl tails nt w = Inr (nt', w')\<rbrakk> \<Longrightarrow> P w'"
proof (induction tails arbitrary: nt w)
  case Nil
  then show ?case by simp
next
  case (Cons tail tails)
  from Cons.prems(2) obtain nt1 w1 where
    t: "walk_tail e mrl tail nt w = Inr (nt1, w1)" and
    r: "walk_tails e mrl tails nt1 w1 = Inr (nt', w')"
    by (auto split: sum.splits)
  have "P w1" by (rule walk_tail_inv [where P = P, OF step erase Cons.prems(1) t])
  then show ?case using r by (rule Cons.IH)
qed

lemma walk_component_inv:
  assumes "walk_component e mrl tails w = Inr w'" and "P w"
    and "\<And>tail s1 nlinks rest nt w nt' w'.
      \<lbrakk>P w; region_exists (w_rdata w) tail;
       map_of (w_graph w) tail = Some ((s1, nlinks) # rest);
       visit_edge e mrl tail s1 nlinks rest nt w = Inr (nt', w')\<rbrakk> \<Longrightarrow> P w'"
    and "\<And>tail w w'. \<lbrakk>P w; erase_node tail w = Inr w'\<rbrakk> \<Longrightarrow> P w'"
  shows "P w'"
  using assms
proof (induction e mrl tails w rule: walk_component.induct)
  case (1 e mrl tails w)
  show ?case
  proof (cases "tails = []")
    case True
    with "1.prems"(1,2) show ?thesis by (simp add: walk_component_Nil)
  next
    case False
    from "1.prems"(1) obtain nt1 w1 where
      t: "walk_tails e mrl tails [] w = Inr (nt1, w1)" and
      r: "walk_component e mrl nt1 w1 = Inr w'"
      unfolding walk_component_Cons [OF False]
      by (cases "walk_tails e mrl tails [] w") auto
    have "P w1"
      by (rule walk_tails_inv [where P = P, OF "1.prems"(3) "1.prems"(4) "1.prems"(2) t])
    from "1.IH" [OF False t refl r this "1.prems"(3) "1.prems"(4)] show ?thesis .
  qed
qed

lemma walk_measure_decrease:
  assumes "nodes_of g1 \<subseteq> nodes_of g" and "k < c'" and "c' \<in> nodes_of g1"
  shows "card {x \<in> nodes_of g1. c' < x} < card {x \<in> nodes_of g. k < x}"
proof (rule psubset_card_mono)
  show "finite {x \<in> nodes_of g. k < x}" by (simp add: finite_nodes_of)
  have "c' \<in> {x \<in> nodes_of g. k < x}" using assms by auto
  moreover have "c' \<notin> {x \<in> nodes_of g1. c' < x}" by simp
  moreover have "{x \<in> nodes_of g1. c' < x} \<subseteq> {x \<in> nodes_of g. k < x}"
    using assms by auto
  ultimately show "{x \<in> nodes_of g1. c' < x} \<subset> {x \<in> nodes_of g. k < x}" by blast
qed

lemma keys_map_erase: "fst ` set (map_erase t m) = fst ` set m - {t}"
  by (auto simp: map_erase_def)

lemma keys_subset_nodes_of: "fst ` set g \<subseteq> nodes_of g"
  by (simp add: nodes_of_def)

lemma erase_node_cursor_moved:
  assumes "cursor_moved k w" and "erase_node tail w = Inr w'"
  shows "cursor_moved k w'"
proof (cases "w_cursor w")
  case None
  with assms(2) show ?thesis by (simp add: erase_node_def)
next
  case (Some c)
  show ?thesis
  proof (cases "tail = c")
    case False
    with Some assms(2) have w': "w' = w\<lparr>w_graph := map_erase tail (w_graph w)\<rparr>"
      by (simp add: erase_node_def)
    with assms(1) Some False show ?thesis
      by (auto simp: cursor_moved_def keys_map_erase split: if_splits)
  next
    case True
    with Some assms(2) have w': "w' = w\<lparr>w_graph := map_erase tail (w_graph w),
        w_cursor := next_key (w_graph w) c, w_need_incr := False\<rparr>"
      by (simp add: erase_node_def)
    have kc: "k \<le> c" using assms(1) Some by (auto simp: cursor_moved_def split: if_splits)
    show ?thesis
    proof (cases "next_key (w_graph w) c")
      case None
      with w' show ?thesis by (simp add: cursor_moved_def)
    next
      case (Some c')
      from next_key_Some [OF Some] kc True w' Some show ?thesis
        by (auto simp: cursor_moved_def keys_map_erase)
    qed
  qed
qed

lemma erase_node_nodes:
  "erase_node tail w = Inr w' \<Longrightarrow> nodes_of (w_graph w') \<subseteq> nodes_of (w_graph w)"
  by (auto simp: erase_node_def split: option.splits if_splits dest: subsetD [OF nodes_of_map_erase])

lemma visit_edge_cursor_moved:
  assumes "cursor_moved k w" and "visit_edge e mrl tail s1 nlinks rest nt w = Inr (nt', w')"
  shows "cursor_moved k w'"
  using assms(1) visit_edge_cursor [OF assms(2)] visit_edge_keys [OF assms(2)]
  by (auto simp: cursor_moved_def split: if_splits option.splits)

lemma advance_measure:
  assumes "cursor_moved k w1" and "nodes_of (w_graph w1) \<subseteq> nodes_of g" and "advance w1 = Inr w2"
  shows "walk_measure w2 < Suc (card {x \<in> nodes_of g. k < x})"
proof -
  have g2: "w_graph w2 = w_graph w1"
    using assms(3) by (auto simp: advance_def split: if_splits option.splits)
  show ?thesis
  proof (cases "w_cursor w2")
    case None
    then show ?thesis by (simp add: walk_measure_def)
  next
    case (Some c')
    have "k < c' \<and> c' \<in> fst ` set (w_graph w1)"
    proof (cases "w_need_incr w1")
      case True
      with assms(1) have "w_cursor w1 = Some k" by (simp add: cursor_moved_def)
      with True assms(3) Some have "next_key (w_graph w1) k = Some c'"
        by (auto simp: advance_def)
      then show ?thesis by (rule next_key_Some)
    next
      case False
      with assms(3) have "w2 = w1" by (simp add: advance_def)
      with False assms(1) Some show ?thesis by (simp add: cursor_moved_def)
    qed
    then have "k < c'" and "c' \<in> nodes_of (w_graph w1)"
      using keys_subset_nodes_of [of "w_graph w1"] by auto
    from walk_measure_decrease [OF assms(2) this] Some g2 show ?thesis
      by (simp add: walk_measure_def)
  qed
qed

lemma walk_component_measure:
  assumes c: "w_cursor w = Some k"
    and wc: "walk_component e mrl [k] (w\<lparr>w_need_incr := True\<rparr>) = Inr w1"
    and adv: "advance w1 = Inr w2"
  shows "walk_measure w2 < walk_measure w"
proof -
  let ?P = "\<lambda>x. cursor_moved k x \<and> nodes_of (w_graph x) \<subseteq> nodes_of (w_graph w)"
  have "?P w1"
  proof (rule walk_component_inv [where P = ?P, OF wc])
    show "?P (w\<lparr>w_need_incr := True\<rparr>)" using c by (simp add: cursor_moved_def)
  next
    fix tail s1 nlinks rest nt x nt' x'
    assume "?P x" and "map_of (w_graph x) tail = Some ((s1, nlinks) # rest)"
      and v: "visit_edge e mrl tail s1 nlinks rest nt x = Inr (nt', x')"
    with visit_edge_nodes [OF _ v] visit_edge_cursor_moved [OF _ v]
    show "?P x'" by blast
  next
    fix tail x x'
    assume "?P x" and "erase_node tail x = Inr x'"
    with erase_node_cursor_moved erase_node_nodes show "?P x'" by blast
  qed
  with advance_measure [OF _ _ adv] c show ?thesis by (simp add: walk_measure_def)
qed

text \<open>
  The outer loop, lines 296 to 354: a component is drained from the node under
  \<^verbatim>\<open>ii_graph\<close>, and the iterator is incremented unless the draining moved it.
\<close>

function walk_graph :: "env \<Rightarrow> int \<Rightarrow> walk \<Rightarrow> error + walk" where
  "walk_graph e max_readlen w =
     (case w_cursor w of
        None \<Rightarrow> Inr w
      | Some k \<Rightarrow>
          (case walk_component e max_readlen [k] (w\<lparr>w_need_incr := True\<rparr>) of
             Inl err \<Rightarrow> Inl err
           | Inr w1 \<Rightarrow>
               (case advance w1 of
                  Inl err \<Rightarrow> Inl err
                | Inr w2 \<Rightarrow> walk_graph e max_readlen w2)))"
  by pat_completeness auto
termination
proof (relation "measure (\<lambda>(e, mrl, w). walk_measure w)")
  show "wf (measure (\<lambda>(e, mrl, w). walk_measure w))" by simp
next
  fix e max_readlen w k w1 w2
  assume "w_cursor w = Some k"
    and "walk_component e max_readlen [k] (w\<lparr>w_need_incr := True\<rparr>) = Inr w1"
    and "advance w1 = Inr w2"
  then have "walk_measure w2 < walk_measure w" by (rule walk_component_measure)
  then show "((e, max_readlen, w2), (e, max_readlen, w)) \<in> measure (\<lambda>(e, mrl, w). walk_measure w)"
    by simp
qed

declare walk_graph.simps [simp del]

text \<open>
  The pass over \<^verbatim>\<open>free_nodes\<close> that ends \<^verbatim>\<open>build_connection\<close>, lines 357 to 365.
  The number of reads is compared with \<^verbatim>\<open>unsigned(_opts.min_read_pair)\<close>, the option
  taken modulo \<open>2 ^ 32\<close>.
\<close>

fun free_regions :: "env \<Rightarrow> int list \<Rightarrow> rdata \<Rightarrow> error + rdata" where
  "free_regions e [] rd = Inr rd"
| "free_regions e (i # is) rd =
     (case num_reads_in_region rd i of
        None \<Rightarrow> Inl (no_such_region i)
      | Some n \<Rightarrow>
          free_regions e is
            (if int n < min_read_pair (opts e) mod 2 ^ 32 then clear_region i rd else rd))"

text \<open>
  \<^verbatim>\<open>BreakDancer::build_connection\<close>. The graph is copied from the store once, at
  entry. The result is the store, the output and the log of the edges visited.
\<close>

definition build_connection ::
  "env \<Rightarrow> int \<Rightarrow> rdata \<times> outputs \<Rightarrow> error + (rdata \<times> outputs \<times> visit list)" where
  "build_connection e max_readlen st =
     (case st of (rd, out) \<Rightarrow>
      (let graph = region_graph rd;
           w0 = \<lparr>w_graph = graph, w_cursor = first_key graph, w_need_incr = True,
                 w_rdata = rd, w_free = [], w_out = out, w_log = []\<rparr>
       in case walk_graph e max_readlen w0 of
            Inl err \<Rightarrow> Inl err
          | Inr w \<Rightarrow>
              (case free_regions e (w_free w) (w_rdata w) of
                 Inl err \<Rightarrow> Inl err
               | Inr rd' \<Rightarrow> Inr (rd', w_out w, w_log w))))"

section \<open>The sweep\<close>

text \<open>
  The members of \<^verbatim>\<open>BreakDancer\<close> that change during a run, under their names
  without the leading underscore, and \<open>written\<close>, what the run has written so far.
  \<^verbatim>\<open>_max_read_window_size\<close> is set by the constructor and no member function called
  during the run assigns it.
\<close>

record bd_state =
  rdata :: rdata
  max_read_window_size :: int
  collecting_normal_reads :: bool
  nnormal_reads :: int
  ntotal_nucleotides :: int
  max_readlen :: int
  buffer_size :: int
  region_start_tid :: int
  region_start_pos :: int
  region_end_tid :: int
  region_end_pos :: int
  reads_in_current_region :: "read list"
  written :: outputs

text \<open>The state that the constructor leaves, lines 95 to 110.\<close>

definition initial_state :: "int \<Rightarrow> bd_state" where
  "initial_state window =
     \<lparr>rdata = empty_rdata, max_read_window_size = window, collecting_normal_reads = False,
      nnormal_reads = 0, ntotal_nucleotides = 0, max_readlen = 0, buffer_size = 0,
      region_start_tid = - 1, region_start_pos = - 1, region_end_tid = - 1, region_end_pos = - 1,
      reads_in_current_region = [], written = no_output\<rparr>"

text \<open>
  The quotient of line 260, a \<^verbatim>\<open>float\<close>, and its comparison with the limit.
\<close>

definition seq_coverage :: "bd_state \<Rightarrow> cfloat" where
  "seq_coverage s =
     float_div (of_c_int (ntotal_nucleotides s))
       (of_c_int (region_end_pos s - region_start_pos s + 1 + max_readlen s))"

text \<open>
  The test of lines 261 and 262, and the region that line 267 hands to the store.
\<close>

definition registers :: "env \<Rightarrow> bd_state \<Rightarrow> bool" where
  "registers e s =
     (region_end_pos s - region_start_pos s > min_len (opts e)
      \<and> float_less (seq_coverage s) (Fin (seq_coverage_lim (opts e))))"


text \<open>\<^verbatim>\<open>BreakDancer::process_breakpoint\<close>.\<close>

definition process_breakpoint :: "env \<Rightarrow> bd_state \<Rightarrow> error + bd_state" where
  "process_breakpoint e s =
     (if registers e s
      then
        (let s1 = s\<lparr>rdata := add_region (region_start_tid s) (region_start_pos s)
                                (region_end_pos s) (nnormal_reads s)
                                (reads_in_current_region s) (rdata s),
                     buffer_size := buffer_size s + 1\<rparr>
         in if buffer_size s1 > opts_buffer_size (opts e) then
              (case build_connection e (max_readlen s1) (rdata s1, written s1) of
                 Inl err \<Rightarrow> Inl err
               | Inr (rd, out, visits) \<Rightarrow> Inr (s1\<lparr>rdata := rd, written := out, buffer_size := 0\<rparr>))
            else Inr s1)
      else
        Inr (s\<lparr>rdata := collapse_accumulated_data_into_last_region
                            (reads_in_current_region s) (rdata s)\<rparr>))"

text \<open>Lines 232 to 241 of \<^verbatim>\<open>push_read\<close>: the reset after a break.\<close>

definition start_region :: "read \<Rightarrow> bd_state \<Rightarrow> bd_state" where
  "start_region aln s =
     s\<lparr>region_start_tid := tid aln, region_start_pos := pos aln,
       reads_in_current_region := [], collecting_normal_reads := False,
       nnormal_reads := 0, max_readlen := 0, ntotal_nucleotides := 0,
       rdata := clear_flanking_region_accumulator (clear_region_accumulator (rdata s))\<rparr>"

text \<open>Lines 244 to 252 of \<^verbatim>\<open>push_read\<close>: the read enters the current region.\<close>

definition append_read :: "read \<Rightarrow> bd_state \<Rightarrow> bd_state" where
  "append_read aln s =
     (let s1 = s\<lparr>reads_in_current_region := reads_in_current_region s @ [aln]\<rparr>;
          s2 = (if length (reads_in_current_region s1) = 1
                then s1\<lparr>collecting_normal_reads := True\<rparr> else s1)
      in s2\<lparr>region_end_tid := tid aln, region_end_pos := pos aln,
            rdata := clear_region_accumulator (rdata s2)\<rparr>)"

definition do_break :: "read \<Rightarrow> bd_state \<Rightarrow> bool" where
  "do_break aln s =
     (tid aln \<noteq> region_end_tid s \<or> pos aln - region_end_pos s > max_read_window_size s)"

text \<open>Lines 220 to 254 of \<^verbatim>\<open>push_read\<close>: what is done with a discordant read.\<close>

definition push_discordant :: "env \<Rightarrow> read \<Rightarrow> bd_state \<Rightarrow> error + bd_state" where
  "push_discordant e aln s =
     (let s1 = (if collecting_normal_reads s
                then s\<lparr>ntotal_nucleotides := ntotal_nucleotides s + query_length aln,
                       max_readlen := max (max_readlen s) (query_length aln)\<rparr>
                else s)
      in if do_break aln s1 then
           (case process_breakpoint e s1 of
              Inl err \<Rightarrow> Inl err
            | Inr s2 \<Rightarrow> Inr (append_read aln (start_region aln s2)))
         else Inr (append_read aln s1))"

text \<open>\<^verbatim>\<open>BreakDancer::push_read\<close>.\<close>

definition push_read :: "env \<Rightarrow> read \<Rightarrow> bd_state \<Rightarrow> error + bd_state" where
  "push_read e aln0 s =
     (let lib_config = library_config_by_index e (lib_index aln0) in
      if bdflag aln0 = NA then Inr s
      else
        (let min_mapq = (if min_mapping_quality lib_config < 0 then min_map_qual (opts e)
                         else min_mapping_quality lib_config)
         in if bdqual aln0 \<le> min_mapq then Inr s
            else
              (let s1 = (if bdqual aln0 > min_map_qual (opts e)
                            \<and> (bdflag aln0 = NORMAL_FR \<or> bdflag aln0 = NORMAL_RF)
                         then s\<lparr>rdata := incr_normal_read_count
                                   (if CN_lib (opts e) = 1 then name lib_config else bam_file lib_config)
                                   (rdata s)\<rparr>
                         else s)
               in if (transchr_rearrange (opts e) \<and> bdflag aln0 \<noteq> ARP_CTX)
                     \<or> bdflag aln0 = MATE_UNMAPPED \<or> bdflag aln0 = UNMAPPED then Inr s1
                  else if bdflag aln0 \<noteq> ARP_CTX \<and> abs_isize aln0 > max_sd (opts e) then Inr s1
                  else
                    (let aln = reclassify (opts e) lib_config aln0 in
                     if bdflag aln = NORMAL_FR \<or> bdflag aln = NORMAL_RF then
                       Inr (if collecting_normal_reads s1 \<and> isize aln > 0
                            then s1\<lparr>nnormal_reads := nnormal_reads s1 + 1\<rparr> else s1)
                     else push_discordant e aln s1))))"

text \<open>\<^verbatim>\<open>BreakDancer::process_final_region\<close>.\<close>

definition process_final_region :: "env \<Rightarrow> bd_state \<Rightarrow> error + bd_state" where
  "process_final_region e s =
     (case (if reads_in_current_region s \<noteq> [] then process_breakpoint e s else Inr s) of
        Inl err \<Rightarrow> Inl err
      | Inr s1 \<Rightarrow>
          (case build_connection e (max_readlen s1) (rdata s1, written s1) of
             Inl err \<Rightarrow> Inl err
           | Inr (rd, out, visits) \<Rightarrow> Inr (s1\<lparr>rdata := rd, written := out\<rparr>)))"

text \<open>
  \<^verbatim>\<open>BreakDancer::run\<close>: the loop over the records that the reader delivers, here a
  list of reads, and the final region.
\<close>

fun sweep :: "env \<Rightarrow> read list \<Rightarrow> bd_state \<Rightarrow> error + bd_state" where
  "sweep e [] s = Inr s"
| "sweep e (aln # alns) s =
     (let lib = readgroup_library e (readgroup aln) in
      if lib \<noteq> [] then
        (case push_read e (set_lib_index (index (library_config_by_name e lib)) aln) s of
           Inl err \<Rightarrow> Inl err
         | Inr s' \<Rightarrow> sweep e alns s')
      else sweep e alns s)"

definition run :: "env \<Rightarrow> read list \<Rightarrow> bd_state \<Rightarrow> error + bd_state" where
  "run e alns s =
     (case sweep e alns s of
        Inl err \<Rightarrow> Inl err
      | Inr s' \<Rightarrow> process_final_region e s')"

text \<open>
  The reads of an open region form a chain when each lies on the reference of the one
  before it and at most the window past it, and the end of the region is its last read.
\<close>

fun gaps_within :: "int \<Rightarrow> read list \<Rightarrow> bool" where
  "gaps_within w (a # b # rs) = (tid b = tid a \<and> pos b - pos a \<le> w \<and> gaps_within w (b # rs))"
| "gaps_within w rs = True"

definition open_region_chained :: "int \<Rightarrow> bd_state \<Rightarrow> bool" where
  "open_region_chained w s =
     (max_read_window_size s = w
      \<and> gaps_within w (reads_in_current_region s)
      \<and> (reads_in_current_region s \<noteq> [] \<longrightarrow>
            region_end_tid s = tid (last (reads_in_current_region s))
            \<and> region_end_pos s = pos (last (reads_in_current_region s))))"

subsection \<open>The library and reads of the examples\<close>

text \<open>
  The library of the specification's scenarios: mean insert size 500, cutoffs 400 and
  600, no minimum mapping quality of its own.
\<close>

definition scenario_lib :: library_config where
  "scenario_lib = \<lparr>index = 0, name = ''lib1'', bam_file = ''a.bam'', min_mapping_quality = - 1,
     uppercutoff = 600, lowercutoff = 400, mean_insertsize = 500\<rparr>"

definition mk_read :: "string \<Rightarrow> int \<Rightarrow> int \<Rightarrow> int \<Rightarrow> pair_orientation_flag \<Rightarrow> read" where
  "mk_read qn t p i f = \<lparr>tid = t, pos = p, isize = i, bdflag = f, bdqual = 60,
     query_name = qn, query_sequence = ''ACGT'', quality_string = ''IIII'', query_length = 4,
     ori = FWD, lib_index = 0, readgroup = ''rg1''\<rparr>"

text \<open>
  The options of the specification's scenarios, with the lookup of labels left empty
  and no FASTQ or BED output; \<open>long_insert_opts\<close> are the same in the long-insert
  mode.
\<close>

definition scenario_opts :: options where
  "scenario_opts = \<lparr>min_map_qual = 35, CN_lib = 0, transchr_rearrange = False,
     max_sd = 100000000, Illumina_long_insert = False, min_len = 7, seq_coverage_lim = 1000,
     opts_buffer_size = 100, min_read_pair = 2, fisher = False, score_threshold = 10,
     print_AF = 0, prefix_fastq = [], dump_BED = [], SVtype = (\<lambda>f. None)\<rparr>"

definition long_insert_opts :: options where
  "long_insert_opts = scenario_opts\<lparr>Illumina_long_insert := True\<rparr>"

text \<open>
  Modelled from the spec: \<^verbatim>\<open>SvBuilder\<close> is not under src. The builder of the examples
  follows steps 1 and 2 of the SV evidence compiler: the candidate reads are the reads
  of the regions; a read whose query name appears twice among them is marked observed;
  \<open>num_pairs\<close> is the number of observed reads halved; the flag is the one of
  \<^verbatim>\<open>ARP_FR_big_insert\<close>, \<^verbatim>\<open>ARP_FR_small_insert\<close>, \<^verbatim>\<open>ARP_RF\<close>, \<^verbatim>\<open>ARP_FF\<close>, \<^verbatim>\<open>ARP_CTX\<close> with the most
  pairs, the first in that order on a tie. The observed reads are the supporting
  reads and the spent evidence to free. \<^verbatim>\<open>process_sv\<close> calls a read supportive when
  the container \<^verbatim>\<open>observed_reads\<close> does not hold its query name, so the container
  holds the names of the candidates that are not marked, those still waiting for a
  mate. A two-node set has its breakpoints at the end of the first region and at the
  start of the second, a one-node set at the ends of its region.
\<close>

definition observed_names :: "read list \<Rightarrow> string list" where
  "observed_names cand =
     filter (\<lambda>n. count_list (map query_name cand) n = 2) (remdups (map query_name cand))"

definition waiting_names :: "read list \<Rightarrow> string list" where
  "waiting_names cand =
     filter (\<lambda>n. count_list (map query_name cand) n \<noteq> 2) (remdups (map query_name cand))"

definition observed :: "read list \<Rightarrow> read list" where
  "observed cand = filter (\<lambda>r. query_name r \<in> set (observed_names cand)) cand"

fun pair_firsts :: "string list \<Rightarrow> string list \<Rightarrow> read list \<Rightarrow> read list" where
  "pair_firsts obs seen [] = []"
| "pair_firsts obs seen (r # rs) =
     (if query_name r \<in> set obs \<and> query_name r \<notin> set seen
      then r # pair_firsts obs (query_name r # seen) rs
      else pair_firsts obs seen rs)"

definition pairs_of :: "read list \<Rightarrow> read list" where
  "pairs_of cand = pair_firsts (observed_names cand) [] cand"

definition pair_count :: "read list \<Rightarrow> pair_orientation_flag \<Rightarrow> int" where
  "pair_count cand f = int (length (filter (\<lambda>r. bdflag r = f) (pairs_of cand)))"

definition dominant_flag :: "read list \<Rightarrow> pair_orientation_flag" where
  "dominant_flag cand =
     fold (\<lambda>f best. if pair_count cand best < pair_count cand f then f else best)
       [ARP_FR_small_insert, ARP_RF, ARP_FF, ARP_CTX] ARP_FR_big_insert"

definition library_pairs :: "read list \<Rightarrow> pair_orientation_flag \<Rightarrow> (nat \<times> int) list" where
  "library_pairs cand f =
     map (\<lambda>i. (i, int (length (filter (\<lambda>r. bdflag r = f \<and> lib_index r = i) (pairs_of cand)))))
       (sort (remdups (map lib_index (filter (\<lambda>r. bdflag r = f) (pairs_of cand)))))"

definition library_span :: "read list \<Rightarrow> pair_orientation_flag \<Rightarrow> nat \<Rightarrow> int" where
  "library_span cand f i =
     sum_list (map abs_isize (filter (\<lambda>r. bdflag r = f \<and> lib_index r = i) (pairs_of cand)))"

definition strand_count :: "strand \<Rightarrow> read list \<Rightarrow> read list \<Rightarrow> int" where
  "strand_count d cand rs =
     int (length (filter (\<lambda>r. query_name r \<in> set (observed_names cand) \<and> ori r = d) rs))"

definition breakpoint_chr :: "basic_region list \<Rightarrow> int \<times> int" where
  "breakpoint_chr regs =
     (case regs of [] \<Rightarrow> (0, 0) | a # _ \<Rightarrow> (region_tid a, region_tid (last regs)))"

definition breakpoint_pos :: "basic_region list \<Rightarrow> int \<times> int" where
  "breakpoint_pos regs =
     (case regs of
        [] \<Rightarrow> (0, 0)
      | [a] \<Rightarrow> (region_begin a, region_last a)
      | a # _ \<Rightarrow> (region_last a, region_begin (last regs)))"

definition spec_builder :: "nat \<Rightarrow> basic_region list \<Rightarrow> read list list \<Rightarrow> int \<Rightarrow> svb" where
  "spec_builder n regs rss mrl =
     \<lparr>observed_reads = waiting_names (concat rss),
      num_pairs = int (length (observed (concat rss))) div 2,
      flag = dominant_flag (concat rss),
      flag_counts = pair_count (concat rss),
      svb_chr = breakpoint_chr regs,
      svb_pos = breakpoint_pos regs,
      fwd_read_count = (strand_count FWD (concat rss) (hd rss), strand_count FWD (concat rss) (last rss)),
      rev_read_count = (strand_count REV (concat rss) (hd rss), strand_count REV (concat rss) (last rss)),
      type_library_readcount = library_pairs (concat rss),
      type_library_meanspan = library_span (concat rss),
      support_reads = observed (concat rss),
      reads_to_free = observed_names (concat rss)\<rparr>"

text \<open>
  The environment of the examples: one library, the builder above, and distribution
  tails that make every library's tail probability one in a thousand and let the
  chi-squared tail underflow.
\<close>

definition scenario_env :: env where
  "scenario_env =
     \<lparr>opts = scenario_opts,
      library_config_by_index = (\<lambda>i. scenario_lib),
      library_config_by_name = (\<lambda>n. scenario_lib),
      readgroup_library = (\<lambda>g. ''lib1''),
      ReadsOut = (\<lambda>k. Some (''reads_'' @ k)),
      read_counts_by_flag = (\<lambda>i f. 10),
      covered_reference_length = 1000000,
      target_name = (\<lambda>t. ''chr1''),
      SvBuilder = spec_builder,
      poisson_tail = (\<lambda>l k. Some (Fin (1 / 1000))),
      chisq_tail = (\<lambda>n x. Some (Fin 0))\<rparr>"

text \<open>
  The same environment with the FASTQ and BED outputs asked for.
\<close>

definition dump_env :: env where
  "dump_env = scenario_env\<lparr>opts := scenario_opts\<lparr>prefix_fastq := ''sv'', dump_BED := ''sv.bed''\<rparr>\<rparr>"

text \<open>
  The environment of the examples with a threshold of three pairs.
\<close>

definition strict_env :: env where
  "strict_env = scenario_env\<lparr>opts := scenario_opts\<lparr>min_read_pair := 3\<rparr>\<rparr>"

text \<open>
  The stores of the examples, each built by registering regions in an empty store.
  In \<open>two_regions\<close> the pairs \<open>p1\<close> and \<open>p2\<close> link region 0 and region 1, the
  read \<open>q\<close> of region 0 has no mate in the store, and the second read of \<open>p2\<close>
  has no sequence. In \<open>three_regions\<close> two pairs link region 0 and region 1 and two
  more link region 1 and region 2. In \<open>loop_regions\<close> two pairs link region 0 and
  region 1 and two more lie inside region 1.
\<close>

definition big :: "string \<Rightarrow> int \<Rightarrow> int \<Rightarrow> read" where
  "big qn p i = mk_read qn 0 p i ARP_FR_big_insert"

definition big_noseq :: "string \<Rightarrow> int \<Rightarrow> int \<Rightarrow> read" where
  "big_noseq qn p i = (big qn p i)\<lparr>query_sequence := []\<rparr>"

definition two_regions :: rdata where
  "two_regions =
     add_region 0 3000 3500 0
       [big ''p1'' 3000 (- 2500), big_noseq ''p2'' 3010 (- 2500)]
       (add_region 0 1000 1500 0
          [big ''p1'' 1000 2500, big ''p2'' 1010 2500, big ''q'' 1020 9000]
          empty_rdata)"

text \<open>
  The two regions of \<open>two_regions\<close> and the candidate reads of the node set that
  holds both, in the order of the regions.
\<close>

definition two_regions_0 :: basic_region where
  "two_regions_0 = \<lparr>region_tid = 0, region_begin = 1000, region_last = 1500, region_nnormal = 0,
     region_reads = [big ''p1'' 1000 2500, big ''p2'' 1010 2500, big ''q'' 1020 9000]\<rparr>"

definition two_regions_1 :: basic_region where
  "two_regions_1 = \<lparr>region_tid = 0, region_begin = 3000, region_last = 3500, region_nnormal = 0,
     region_reads = [big ''p1'' 3000 (- 2500), big_noseq ''p2'' 3010 (- 2500)]\<rparr>"

definition two_cand :: "read list" where
  "two_cand = [big ''p1'' 1000 2500, big ''p2'' 1010 2500, big ''q'' 1020 9000,
               big ''p1'' 3000 (- 2500), big_noseq ''p2'' 3010 (- 2500)]"

definition three_regions :: rdata where
  "three_regions =
     add_region 0 5000 5500 0 [big ''e'' 5000 (- 2000), big ''f'' 5010 (- 2000)]
       (add_region 0 3000 3500 0
          [big ''a'' 3000 (- 2000), big ''b'' 3010 (- 2000), big ''e'' 3020 2000, big ''f'' 3030 2000]
          (add_region 0 1000 1500 0 [big ''a'' 1000 2000, big ''b'' 1010 2000] empty_rdata))"

definition loop_regions :: rdata where
  "loop_regions =
     add_region 0 3000 3500 0
       [big ''a'' 3000 (- 2000), big ''b'' 3010 (- 2000),
        big ''c'' 3020 100, big ''c'' 3120 (- 100), big ''d'' 3030 100, big ''d'' 3130 (- 100)]
       (add_region 0 1000 1500 0 [big ''a'' 1000 2000, big ''b'' 1010 2000] empty_rdata)"

text \<open>
  A second library, and an environment in which no read of either library has the
  flag in the configuration, so that \<^verbatim>\<open>lambda\<close> is its minimum of \<open>1 / 10 ^ 10\<close>. The
  Poisson tail is then about \<open>1 / (6 * 10 ^ 30)\<close> for a count of 2, and from a count of
  29 on it is below the smallest positive double and evaluates to 0. In
  \<open>deep_regions\<close> thirty pairs of the first library and two of the second link
  region 0 and region 1.
\<close>

definition second_lib :: library_config where
  "second_lib = \<lparr>index = 1, name = ''lib2'', bam_file = ''b.bam'', min_mapping_quality = - 1,
     uppercutoff = 600, lowercutoff = 400, mean_insertsize = 500\<rparr>"








text \<open>
  \<open>mixed_regions\<close> is \<open>two_regions\<close> without the read \<open>q\<close> and with a third
  pair, \<open>m\<close>, whose reads are flagged \<^verbatim>\<open>ARP_FF\<close>.
\<close>

definition ff :: "string \<Rightarrow> int \<Rightarrow> int \<Rightarrow> read" where
  "ff qn p i = mk_read qn 0 p i ARP_FF"

definition mixed_0 :: basic_region where
  "mixed_0 = \<lparr>region_tid = 0, region_begin = 1000, region_last = 1500, region_nnormal = 0,
     region_reads = [big ''p1'' 1000 2500, big ''p2'' 1010 2500, ff ''m'' 1020 2600]\<rparr>"

definition mixed_1 :: basic_region where
  "mixed_1 = \<lparr>region_tid = 0, region_begin = 3000, region_last = 3500, region_nnormal = 0,
     region_reads = [big ''p1'' 3000 (- 2500), big_noseq ''p2'' 3010 (- 2500),
                     ff ''m'' 3020 (- 2600)]\<rparr>"

definition mixed_regions :: rdata where
  "mixed_regions =
     add_region 0 3000 3500 0 (region_reads mixed_1)
       (add_region 0 1000 1500 0 (region_reads mixed_0) empty_rdata)"

definition mixed_cand :: "read list" where
  "mixed_cand = region_reads mixed_0 @ region_reads mixed_1"

text \<open>
  The regions of \<open>loop_regions\<close>, the candidate reads and the builder of the node
  set that holds both, and what a run of \<^verbatim>\<open>build_connection\<close> on that store passes
  through: the store and the output after the call of \<^verbatim>\<open>process_sv\<close> for the edge
  from region 0 to region 1, the store after the pass over \<^verbatim>\<open>free_nodes\<close>, and the
  edges visited.
\<close>

definition loop_0 :: basic_region where
  "loop_0 = \<lparr>region_tid = 0, region_begin = 1000, region_last = 1500, region_nnormal = 0,
     region_reads = [big ''a'' 1000 2000, big ''b'' 1010 2000]\<rparr>"

definition loop_1 :: basic_region where
  "loop_1 = \<lparr>region_tid = 0, region_begin = 3000, region_last = 3500, region_nnormal = 0,
     region_reads = [big ''a'' 3000 (- 2000), big ''b'' 3010 (- 2000),
        big ''c'' 3020 100, big ''c'' 3120 (- 100), big ''d'' 3030 100, big ''d'' 3130 (- 100)]\<rparr>"

definition loop_cand :: "read list" where
  "loop_cand = region_reads loop_0 @ region_reads loop_1"

definition loop_sv :: svb where
  "loop_sv = spec_builder 2 [loop_0, loop_1] [region_reads loop_0, region_reads loop_1] 50"

definition loop_after :: rdata where
  "loop_after = \<lparr>regions = [Some (loop_0\<lparr>region_reads := []\<rparr>), Some (loop_1\<lparr>region_reads := []\<rparr>)],
     read_regions = [], region_accumulator = [], flanking_accumulator = [],
     region_counts = [([], []), ([], [])]\<rparr>"

definition loop_out :: outputs where
  "loop_out = no_output\<lparr>sv_lines := [table_line scenario_env 50 loop_sv 30]\<rparr>"

definition loop_cleared :: rdata where
  "loop_cleared = loop_after\<lparr>regions := [None, None]\<rparr>"

definition loop_visits :: "visit list" where
  "loop_visits =
     [\<lparr>v_tail = 0, v_s1 = 1, v_nlinks = 2, v_processed = True, v_tail_exists = True,
        v_s1_exists = True, v_live_weight = Some 2\<rparr>,
      \<lparr>v_tail = 1, v_s1 = 1, v_nlinks = 2, v_processed = True, v_tail_exists = True,
        v_s1_exists = True, v_live_weight = None\<rparr>]"




text \<open>
  Three discordant reads at positions 0, 100 and 200 of one reference, and the state
  that the sweep reaches on them with a window of 100.
\<close>

definition chain_reads :: "read list" where
  "chain_reads = [big ''x'' 0 2000, big ''y'' 100 2000, big ''z'' 200 2000]"

definition chain_state :: bd_state where
  "chain_state = (initial_state 100)
     \<lparr>region_start_tid := 0, region_start_pos := 0, region_end_tid := 0, region_end_pos := 200,
      collecting_normal_reads := True, ntotal_nucleotides := 8, max_readlen := 4,
      reads_in_current_region := chain_reads\<rparr>"

section \<open>The examples evaluated\<close>

lemma big_fields:
  "query_name (big qn p i) = qn" "bdflag (big qn p i) = ARP_FR_big_insert"
  "lib_index (big qn p i) = 0" "ori (big qn p i) = FWD" "abs_isize (big qn p i) = \<bar>i\<bar>"
  "query_sequence (big qn p i) = ''ACGT''" "quality_string (big qn p i) = ''IIII''"
  "query_name (big_noseq qn p i) = qn" "bdflag (big_noseq qn p i) = ARP_FR_big_insert"
  "lib_index (big_noseq qn p i) = 0" "ori (big_noseq qn p i) = FWD"
  "abs_isize (big_noseq qn p i) = \<bar>i\<bar>"
  "query_sequence (big_noseq qn p i) = []" "quality_string (big_noseq qn p i) = ''IIII''"
  by (simp_all add: big_def big_noseq_def mk_read_def abs_isize_def)

lemma two_regions_regions: "regions two_regions = [Some two_regions_0, Some two_regions_1]"
  by (simp add: two_regions_def add_region_def empty_rdata_def two_regions_0_def two_regions_1_def)

lemma two_regions_read_regions:
  "read_regions two_regions = [(''p1'', [0, 1]), (''p2'', [0, 1]), (''q'', [0])]"
  by (simp add: two_regions_def add_region_def empty_rdata_def register_read_def big_fields)

lemma two_regions_lookup: "lookup_regions two_regions [0, 1] = Inr [two_regions_0, two_regions_1]"
  by (simp add: region_def two_regions_regions)



lemma spec_builder_fields:
  "observed_reads (spec_builder n regs rss mrl) = waiting_names (concat rss)"
  "num_pairs (spec_builder n regs rss mrl) = int (length (observed (concat rss))) div 2"
  "flag (spec_builder n regs rss mrl) = dominant_flag (concat rss)"
  "flag_counts (spec_builder n regs rss mrl) = pair_count (concat rss)"
  "type_library_readcount (spec_builder n regs rss mrl) = library_pairs (concat rss)"
  "type_library_meanspan (spec_builder n regs rss mrl) = library_span (concat rss)"
  "support_reads (spec_builder n regs rss mrl) = observed (concat rss)"
  "reads_to_free (spec_builder n regs rss mrl) = observed_names (concat rss)"
  by (simp_all add: spec_builder_def)

lemma two_cand_concat:
  "region_reads two_regions_0 @ region_reads two_regions_1 = two_cand"
  by (simp add: two_regions_0_def two_regions_1_def two_cand_def)

lemma two_cand_names: "observed_names two_cand = [''p1'', ''p2'']"
  by (simp add: observed_names_def two_cand_def big_fields)

lemma two_cand_observed:
  "observed two_cand = [big ''p1'' 1000 2500, big ''p2'' 1010 2500,
                        big ''p1'' 3000 (- 2500), big_noseq ''p2'' 3010 (- 2500)]"
  by (simp add: observed_def two_cand_names) (simp add: two_cand_def big_fields)

lemma two_cand_pairs: "pairs_of two_cand = [big ''p1'' 1000 2500, big ''p2'' 1010 2500]"
  by (simp add: pairs_of_def two_cand_names) (simp add: two_cand_def big_fields)

lemma two_cand_pair_count:
  "pair_count two_cand f = (if f = ARP_FR_big_insert then 2 else 0)"
  by (simp add: pair_count_def two_cand_pairs big_fields)

lemma two_cand_flag: "dominant_flag two_cand = ARP_FR_big_insert"
  by (simp add: dominant_flag_def two_cand_pair_count)

lemma two_cand_library_pairs: "library_pairs two_cand ARP_FR_big_insert = [(0, 2)]"
  by (simp add: library_pairs_def two_cand_pairs big_fields)


lemma scenario_env_fields:
  "SvBuilder scenario_env = spec_builder" "opts scenario_env = scenario_opts"
  "poisson_tail scenario_env = (\<lambda>l k. Some (Fin (1 / 1000)))"
  "chisq_tail scenario_env = (\<lambda>n x. Some (Fin 0))"
  "library_config_by_index scenario_env = (\<lambda>i. scenario_lib)"
  by (simp_all add: scenario_env_def)

lemma scenario_opts_fields:
  "min_read_pair scenario_opts = 2" "score_threshold scenario_opts = 10"
  "prefix_fastq scenario_opts = []" "dump_BED scenario_opts = []" "fisher scenario_opts = False"
  by (simp_all add: scenario_opts_def)

lemma dump_env_fields:
  "SvBuilder dump_env = spec_builder" "poisson_tail dump_env = (\<lambda>l k. Some (Fin (1 / 1000)))"
  "library_config_by_index dump_env = (\<lambda>i. scenario_lib)"
  "min_read_pair (opts dump_env) = 2" "score_threshold (opts dump_env) = 10"
  "prefix_fastq (opts dump_env) = ''sv''" "dump_BED (opts dump_env) = ''sv.bed''"
  "fisher (opts dump_env) = False" "ReadsOut dump_env = (\<lambda>k. Some (''reads_'' @ k))"
  by (simp_all add: dump_env_def scenario_env_def scenario_opts_def)

lemma two_cand_written:
  "filter (\<lambda>y. query_sequence y \<noteq> [] \<and> quality_string y \<noteq> [] \<and> bdflag y = ARP_FR_big_insert)
     (observed two_cand)
   = [big ''p1'' 1000 2500, big ''p2'' 1010 2500, big ''p1'' 3000 (- 2500)]"
  by (simp add: two_cand_observed big_fields)

lemma two_cand_library_span: "library_span two_cand ARP_FR_big_insert 0 = 5000"
  by (simp add: library_span_def two_cand_pairs big_fields)














lemma library_fields:
  "index scenario_lib = 0" "mean_insertsize scenario_lib = 500"
  "index second_lib = 1" "mean_insertsize second_lib = 500"
  by (simp_all add: scenario_lib_def second_lib_def)

lemma ff_fields:
  "query_name (ff qn p i) = qn" "bdflag (ff qn p i) = ARP_FF"
  "lib_index (ff qn p i) = 0" "abs_isize (ff qn p i) = \<bar>i\<bar>"
  "query_sequence (ff qn p i) = ''ACGT''" "quality_string (ff qn p i) = ''IIII''"
  by (simp_all add: ff_def mk_read_def abs_isize_def)

lemma mixed_cand_list:
  "mixed_cand = [big ''p1'' 1000 2500, big ''p2'' 1010 2500, ff ''m'' 1020 2600,
                 big ''p1'' 3000 (- 2500), big_noseq ''p2'' 3010 (- 2500), ff ''m'' 3020 (- 2600)]"
  by (simp add: mixed_cand_def mixed_0_def mixed_1_def)

lemma mixed_cand_concat: "region_reads mixed_0 @ region_reads mixed_1 = mixed_cand"
  by (simp add: mixed_cand_def)

lemma mixed_names: "observed_names mixed_cand = [''p1'', ''p2'', ''m'']"
  by (simp add: observed_names_def mixed_cand_list big_fields ff_fields)

lemma mixed_observed: "observed mixed_cand = mixed_cand"
  unfolding observed_def mixed_names by (simp add: mixed_cand_list big_fields ff_fields)

lemma mixed_pairs:
  "pairs_of mixed_cand = [big ''p1'' 1000 2500, big ''p2'' 1010 2500, ff ''m'' 1020 2600]"
  unfolding pairs_of_def mixed_names by (simp add: mixed_cand_list big_fields ff_fields)

lemma mixed_pair_count:
  "pair_count mixed_cand f
     = (if f = ARP_FR_big_insert then 2 else if f = ARP_FF then 1 else 0)"
  by (auto simp: pair_count_def mixed_pairs big_fields ff_fields)

lemma mixed_flag: "dominant_flag mixed_cand = ARP_FR_big_insert"
  by (simp add: dominant_flag_def mixed_pair_count)

lemma mixed_library_pairs: "library_pairs mixed_cand ARP_FR_big_insert = [(0, 2)]"
  by (simp add: library_pairs_def mixed_pairs big_fields ff_fields)

lemma mixed_library_span: "library_span mixed_cand ARP_FR_big_insert 0 = 5000"
  by (simp add: library_span_def mixed_pairs big_fields ff_fields)

lemma mixed_regions_lookup: "lookup_regions mixed_regions [0, 1] = Inr [mixed_0, mixed_1]"
  by (simp add: region_def mixed_regions_def add_region_def empty_rdata_def mixed_0_def mixed_1_def)

lemma mixed_written:
  "filter (\<lambda>y. query_sequence y \<noteq> [] \<and> quality_string y \<noteq> [] \<and> bdflag y = ARP_FR_big_insert)
     mixed_cand
   = [big ''p1'' 1000 2500, big ''p2'' 1010 2500, big ''p1'' 3000 (- 2500)]"
  by (simp add: mixed_cand_list big_fields ff_fields)

lemma pair_firsts_map:
  assumes "\<And>r. query_name (g r) = query_name r"
  shows "pair_firsts obs seen (map g cand) = map g (pair_firsts obs seen cand)"
  by (induction cand arbitrary: seen) (simp_all add: assms)

lemma observed_names_map:
  assumes "\<And>r. query_name (g r) = query_name r"
  shows "observed_names (map g cand) = observed_names cand"
  by (simp add: observed_names_def comp_def assms)

lemma pair_count_map:
  assumes "\<And>r. query_name (g r) = query_name r" and "\<And>r. bdflag (g r) = bdflag r"
  shows "pair_count (map g cand) f = pair_count cand f"
  by (simp add: pair_count_def pairs_of_def observed_names_map [of g, OF assms(1)]
        pair_firsts_map [of g, OF assms(1)] filter_map comp_def assms(2))

lemma dominant_flag_map:
  assumes "\<And>r. query_name (g r) = query_name r" and "\<And>r. bdflag (g r) = bdflag r"
  shows "dominant_flag (map g cand) = dominant_flag cand"
  by (simp add: dominant_flag_def pair_count_map [of g, OF assms])

lemma set_pair_firsts: "set (pair_firsts obs seen cand) \<subseteq> {r \<in> set cand. query_name r \<in> set obs}"
  by (induction cand arbitrary: seen) auto

lemma pairs_of_observed: "set (pairs_of cand) \<subseteq> set (observed cand)"
  using set_pair_firsts [of "observed_names cand" "[]" cand]
  by (auto simp: pairs_of_def observed_def)

lemma strict_env_fields:
  "SvBuilder strict_env = spec_builder" "min_read_pair (opts strict_env) = 3"
  by (simp_all add: strict_env_def scenario_env_def scenario_opts_def)

lemma two_regions_region:
  "region two_regions 0 = Some two_regions_0" "region two_regions 1 = Some two_regions_1"
  by (simp_all add: region_def two_regions_regions)

lemma two_cand_query_names:
  "map query_name two_cand = [''p1'', ''p2'', ''q'', ''p1'', ''p2'']"
  by (simp add: two_cand_def big_fields)

lemma loop_regions_eq:
  "loop_regions = \<lparr>regions = [Some loop_0, Some loop_1],
     read_regions = [(''a'', [0, 1]), (''b'', [0, 1]), (''c'', [1, 1]), (''d'', [1, 1])],
     region_accumulator = [], flanking_accumulator = [],
     region_counts = [([], []), ([], [])]\<rparr>"
  by (simp add: loop_regions_def add_region_def empty_rdata_def register_read_def big_fields
        loop_0_def loop_1_def)

lemma loop_graph: "region_graph loop_regions = [(0, [(1, 2)]), (1, [(0, 2), (1, 2)])]"
  by (simp add: loop_regions_eq region_graph_def add_link_def incr_edge_def subgraph_of_def
        map_update_def Let_def)

lemma loop_after_graph: "region_graph loop_after = []"
  by (simp add: loop_after_def region_graph_def)

lemma loop_lookup: "lookup_regions loop_regions [0, 1] = Inr [loop_0, loop_1]"
  by (simp add: loop_regions_eq region_def)

lemma loop_cand_names:
  "map query_name loop_cand = [''a'', ''b'', ''a'', ''b'', ''c'', ''c'', ''d'', ''d'']"
  by (simp add: loop_cand_def loop_0_def loop_1_def big_fields)

lemma loop_observed_names: "observed_names loop_cand = [''a'', ''b'', ''c'', ''d'']"
  unfolding observed_names_def loop_cand_names by simp

lemma loop_waiting_names: "waiting_names loop_cand = []"
  unfolding waiting_names_def loop_cand_names by simp

lemma loop_observed: "observed loop_cand = loop_cand"
  unfolding observed_def loop_observed_names
  by (simp add: loop_cand_def loop_0_def loop_1_def big_fields)

lemma loop_pairs:
  "pairs_of loop_cand = [big ''a'' 1000 2000, big ''b'' 1010 2000, big ''c'' 3020 100, big ''d'' 3030 100]"
  unfolding pairs_of_def loop_observed_names
  by (simp add: loop_cand_def loop_0_def loop_1_def big_fields)

lemma loop_pair_count: "pair_count loop_cand f = (if f = ARP_FR_big_insert then 4 else 0)"
  unfolding pair_count_def loop_pairs by (simp add: big_fields)

lemma loop_flag: "dominant_flag loop_cand = ARP_FR_big_insert"
  by (simp add: dominant_flag_def loop_pair_count)

lemma loop_library_pairs: "library_pairs loop_cand ARP_FR_big_insert = [(0, 4)]"
  unfolding library_pairs_def loop_pairs by (simp add: big_fields)

lemma loop_library_span: "library_span loop_cand ARP_FR_big_insert 0 = 4200"
  unfolding library_span_def loop_pairs by (simp add: big_fields)

lemma loop_sv_fields:
  "observed_reads loop_sv = []" "num_pairs loop_sv = 4" "flag loop_sv = ARP_FR_big_insert"
  "flag_counts loop_sv ARP_FR_big_insert = 4" "reads_to_free loop_sv = [''a'', ''b'', ''c'', ''d'']"
  "type_library_readcount loop_sv ARP_FR_big_insert = [(0, 4)]"
  "type_library_meanspan loop_sv ARP_FR_big_insert 0 = 4200"
  by (simp_all add: loop_sv_def spec_builder_fields loop_cand_def [symmetric] loop_waiting_names
        loop_observed loop_flag loop_pair_count loop_observed_names loop_library_pairs
        loop_library_span)
     (simp add: loop_cand_def loop_0_def loop_1_def)

section \<open>Properties of the read classifier\<close>

lemma abs_isize_set_bdflag: "abs_isize (set_bdflag f aln) = abs_isize aln"
  by (simp add: abs_isize_def set_bdflag_def)

lemma bdflag_set_bdflag: "bdflag (set_bdflag f aln) = f"
  by (simp add: set_bdflag_def)

lemma set_bdflag_twice: "set_bdflag f (set_bdflag g aln) = set_bdflag f aln"
  by (simp add: set_bdflag_def)

lemma set_bdflag_same: "bdflag aln = f \<Longrightarrow> set_bdflag f aln = aln"
  by (simp add: set_bdflag_def)

text \<open>
  C8. The reclassification is idempotent: in the long-insert and in the short-insert
  mode, for every library configuration and every read, applying the insert-size
  rules and the fold of \<^verbatim>\<open>ARP_RR\<close> into \<^verbatim>\<open>ARP_FF\<close> to the read that a first application
  produced changes nothing.
\<close>

theorem reclassify_idempotent:
  "reclassify os lib_config (reclassify os lib_config aln) = reclassify os lib_config aln"
  by (cases "bdflag aln")
     (simp_all add: reclassify_def Let_def abs_isize_set_bdflag bdflag_set_bdflag
        set_bdflag_twice set_bdflag_same)

text \<open>
  C5 (as amended). In the long-insert mode a read flagged \<^verbatim>\<open>ARP_RF\<close> is made
  \<^verbatim>\<open>NORMAL_RF\<close> only when its absolute insert size is strictly below the upper cutoff,
  and the next rule then makes it \<^verbatim>\<open>ARP_FR_small_insert\<close> when the size is also
  strictly below the lower cutoff. At the upper cutoff exactly, and above it, the read
  keeps \<^verbatim>\<open>ARP_RF\<close>.
\<close>

theorem long_insert_ARP_RF:
  assumes "Illumina_long_insert os" and "bdflag aln = ARP_RF"
  shows "bdflag (reclassify os lib_config aln) =
    (if real_of_int (abs_isize aln) < uppercutoff lib_config
     then (if real_of_int (abs_isize aln) < lowercutoff lib_config
           then ARP_FR_small_insert else NORMAL_RF)
     else ARP_RF)"
  using assms
  by (simp add: reclassify_def Let_def abs_isize_set_bdflag bdflag_set_bdflag)

theorem long_insert_ARP_RF_witness:
  "Illumina_long_insert long_insert_opts
   \<and> bdflag (mk_read ''r'' 0 100 (- 500) ARP_RF) = ARP_RF
   \<and> bdflag (reclassify long_insert_opts scenario_lib (mk_read ''r'' 0 100 (- 500) ARP_RF)) = NORMAL_RF"
  using long_insert_ARP_RF [of long_insert_opts "mk_read ''r'' 0 100 (- 500) ARP_RF" scenario_lib]
  by (simp add: mk_read_def scenario_lib_def abs_isize_def long_insert_opts_def scenario_opts_def)

text \<open>
  The claim as the specification words it, with \<open>\<le>\<close>, fails at the boundary: a read
  flagged \<^verbatim>\<open>ARP_RF\<close> whose absolute insert size equals the upper cutoff 600 is not made
  concordant.
\<close>

theorem long_insert_boundary_counterexample:
  "Illumina_long_insert long_insert_opts
   \<and> real_of_int (abs_isize (mk_read ''r'' 0 100 600 ARP_RF)) \<le> uppercutoff scenario_lib
   \<and> bdflag (mk_read ''r'' 0 100 600 ARP_RF) = ARP_RF
   \<and> bdflag (reclassify long_insert_opts scenario_lib (mk_read ''r'' 0 100 600 ARP_RF)) \<noteq> NORMAL_RF"
  by (simp add: reclassify_def Let_def abs_isize_def set_bdflag_def mk_read_def scenario_lib_def
        long_insert_opts_def scenario_opts_def)

section \<open>Properties of the score\<close>

lemma float_log_bound:
  assumes "float_less ZERO fisherP"
  shows "float_le LZERO (float_log fisherP)"
proof (cases fisherP)
  case (Fin p)
  with assms have less: "exp (- 99) < p" by (simp add: ZERO_def)
  have "0 < p" using less exp_gt_zero [of "- 99 :: real"] by linarith
  with less have "exp (- 99) < exp (ln p)" by simp
  then have "- 99 < ln p" by (simp only: exp_less_cancel_iff)
  with \<open>0 < p\<close> Fin show ?thesis by (simp add: LZERO_def)
qed (use assms in \<open>simp_all add: ZERO_def LZERO_def\<close>)

text \<open>
  C7. \<^verbatim>\<open>ComputeProbScore\<close> applies the Fisher combination only when the option is
  set and the accumulated log p-value is less than 0: otherwise it returns the
  accumulated value and prints nothing. When it applies the combination and the
  chi-squared tail is evaluated, the result is the log of the tail if the tail is
  greater than \<open>exp (- 99)\<close> and \<^verbatim>\<open>LZERO\<close>, that is \<open>- 99\<close>, if not, so it is
  never below \<open>- 99\<close>. When the evaluation throws, one diagnostic is printed and the
  accumulated value is returned unchanged. The statistic is \<open>- 2\<close> times the
  accumulated value and the degrees of freedom are twice the number of libraries. An
  exception of the Poisson step leaves the function.
\<close>

theorem ComputeProbScore_fisher:
  "(case poisson_sum e trs ty rl (Fin 0, Fin 0) of
      None \<Rightarrow> ComputeProbScore e trs rl ty fisher_opt = None
    | Some (logpvalue, err) \<Rightarrow>
        (\<not> (fisher_opt \<and> float_less logpvalue (Fin 0)) \<longrightarrow>
           ComputeProbScore e trs rl ty fisher_opt = Some (logpvalue, []))
        \<and> (fisher_opt \<and> float_less logpvalue (Fin 0) \<longrightarrow>
           (case chisq_tail e (2 * length rl) (float_mul (Fin (- 2)) logpvalue) of
              Some fisherP \<Rightarrow>
                ComputeProbScore e trs rl ty fisher_opt
                  = Some (if float_less (Fin (exp (- 99))) fisherP
                          then float_log fisherP else Fin (- 99), [])
                \<and> float_le (Fin (- 99))
                     (if float_less (Fin (exp (- 99))) fisherP
                      then float_log fisherP else Fin (- 99))
            | None \<Rightarrow>
                ComputeProbScore e trs rl ty fisher_opt
                  = Some (logpvalue,
                          [chi_squared_problem (2 * length rl) logpvalue
                             (float_mul (Fin (- 2)) logpvalue)]))))"
  using float_log_bound
  by (auto simp: ComputeProbScore_def ZERO_def LZERO_def split: option.splits)

lemma ln_thousandth: "ln (1 / 1000 :: real) = - 3 * ln 10"
proof -
  have "ln (1000 :: real) = ln (10 ^ 3)" by simp
  also have "\<dots> = 3 * ln 10" by (simp only: ln_realpow of_nat_numeral)
  finally show ?thesis by (simp add: ln_div)
qed

lemma scenario_poisson_sum:
  "poisson_sum scenario_env 1000 ARP_FF [(0, 10)] (Fin 0, Fin 0) = Some (Fin (- 3 * ln 10), Fin 0)"
  by (simp add: scenario_env_def Let_def float_sub_def float_max_def of_c_int_def ln_thousandth)

text \<open>
  In the environment of the examples the combination is applied to a log p-value of
  \<open>- 3 * ln 10\<close>, the tail underflows and the result is clamped.
\<close>

theorem ComputeProbScore_fisher_witness:
  "poisson_sum scenario_env 1000 ARP_FF [(0, 10)] (Fin 0, Fin 0) = Some (Fin (- 3 * ln 10), Fin 0)
   \<and> float_less (Fin (- 3 * ln 10)) (Fin 0)
   \<and> chisq_tail scenario_env 2 (float_mul (Fin (- 2)) (Fin (- 3 * ln 10))) = Some (Fin 0)
   \<and> ComputeProbScore scenario_env 1000 [(0, 10)] ARP_FF True = Some (Fin (- 99), [])"
proof -
  have tail: "chisq_tail scenario_env = (\<lambda>n x. Some (Fin 0))" by (simp add: scenario_env_def)
  from ComputeProbScore_fisher [where e = scenario_env and trs = 1000 and ty = ARP_FF
          and rl = "[(0, 10)]" and fisher_opt = True, unfolded scenario_poisson_sum]
  have "ComputeProbScore scenario_env 1000 [(0, 10)] ARP_FF True = Some (Fin (- 99), [])"
    by (simp add: tail)
  then show ?thesis by (simp del: poisson_sum.simps add: scenario_poisson_sum tail)
qed

section \<open>Properties of the report\<close>




lemma toward_zero_round: "0 \<le> t \<Longrightarrow> toward_zero (t + 1 / 2) = round t"
  by (simp add: toward_zero_def round_def)

lemma round_le_99: "\<not> 99 < t \<Longrightarrow> round t \<le> 99"
  by (simp add: round_def floor_le_iff)

lemma round_ge_99: "99 < t \<Longrightarrow> 99 \<le> round (t :: real)"
  by (simp add: round_def le_floor_iff)



lemma PhredQ_of_Fin:
  assumes "x \<le> 0"
  shows "PhredQ_of (Fin x) = Some (min 99 (round (- 10 * x / ln 10)))"
proof -
  define t where "t = - 10 * x / ln 10"
  have ln10: "0 < ln (10 :: real)" by simp
  have "0 \<le> - 10 * x" using assms by simp
  then have t0: "0 \<le> t" unfolding t_def using ln10 by (rule divide_nonneg_pos)
  have r0: "0 \<le> round t" using t0 by (simp add: round_def)
  have "(if 99 < t then Some 99 else c_int (Fin (t + 1 / 2))) = Some (min 99 (round t))"
  proof (cases "99 < t")
    case True
    with round_ge_99 [of t] show ?thesis by (simp add: min_def)
  next
    case False
    with round_le_99 [of t] have "round t \<le> 99" by simp
    with False r0 toward_zero_round [OF t0] show ?thesis by (simp add: min_def)
  qed
  moreover have "PhredQ_of (Fin x) = (if 99 < t then Some 99 else c_int (Fin (t + 1 / 2)))"
    using ln10 unfolding t_def by (simp add: PhredQ_of_def)
  ultimately show ?thesis unfolding t_def by simp
qed

lemma bed_loop_filter:
  "bed_loop e f ys = map (bed_feature_of e) (filter (\<lambda>y. \<not> skipped f y) ys)"
  by (induction ys) simp_all

lemma dump_fastq_loop_reads:
  "dump_fastq_loop e f ys pairing out = Inr w
     \<Longrightarrow> map snd (fastq_records w)
           = map snd (fastq_records out) @ filter (\<lambda>y. \<not> skipped f y) ys
         \<and> sv_lines w = sv_lines out \<and> bed_items w = bed_items out
         \<and> diagnostics w = diagnostics out"
proof (induction ys arbitrary: pairing out)
  case Nil
  then show ?case by simp
next
  case (Cons y ys)
  show ?case
  proof (cases "skipped f y")
    case True
    with Cons show ?thesis by simp
  next
    case False
    let ?key = "name (library_config_by_index e (lib_index y))
                  @ (if query_name y \<in> set pairing then ''1'' else ''2'')"
    from Cons.prems False obtain fh where fh: "ReadsOut e ?key = Some fh"
      by (cases "ReadsOut e ?key") (simp_all add: Let_def)
    with Cons.prems False
    have "dump_fastq_loop e f ys (query_name y # pairing)
            (out\<lparr>fastq_records := fastq_records out @ [(fh, y)]\<rparr>) = Inr w"
      by (simp add: Let_def)
    from Cons.IH [OF this] False show ?thesis by simp
  qed
qed

lemma dump_fastq_loop_returns:
  assumes "\<forall>k. ReadsOut e k \<noteq> None"
  shows "\<exists>w. dump_fastq_loop e f ys pairing out = Inr w"
proof (induction ys arbitrary: pairing out)
  case Nil
  then show ?case by simp
next
  case (Cons y ys)
  show ?case
  proof (cases "skipped f y")
    case True
    with Cons show ?thesis by simp
  next
    case False
    let ?key = "name (library_config_by_index e (lib_index y))
                  @ (if query_name y \<in> set pairing then ''1'' else ''2'')"
    from assms obtain fh where fh: "ReadsOut e ?key = Some fh" by auto
    from Cons.IH [of "query_name y # pairing" "out\<lparr>fastq_records := fastq_records out @ [(fh, y)]\<rparr>"]
      False fh
    show ?thesis by (simp add: Let_def)
  qed
qed

lemma report_cases:
  assumes "report e mrl snodes sv rd out = Inr out'"
  obtains (quiet) lp d q where "score_of e snodes sv rd = Some (lp, d)"
      and "PhredQ_of lp = Some q" and "\<not> q > score_threshold (opts e)"
      and "out' = out\<lparr>diagnostics := diagnostics out @ d\<rparr>"
  | (emitted) lp d q out3 where "score_of e snodes sv rd = Some (lp, d)"
      and "PhredQ_of lp = Some q" and "q > score_threshold (opts e)"
      and "(if prefix_fastq (opts e) \<noteq> []
            then dump_fastq e (flag sv) (support_reads sv)
                   (out\<lparr>diagnostics := diagnostics out @ d,
                        sv_lines := sv_lines out @ [table_line e mrl sv q]\<rparr>)
            else Inr (out\<lparr>diagnostics := diagnostics out @ d,
                        sv_lines := sv_lines out @ [table_line e mrl sv q]\<rparr>)) = Inr out3"
      and "out' = out3\<lparr>bed_items := (if dump_BED (opts e) \<noteq> []
                                      then bed_items out3 @ bed_track e mrl sv
                                      else bed_items out3)\<rparr>"
proof -
  from assms have ds: "diffspan_of e sv \<noteq> None"
    by (auto simp: report_def split: if_splits)
  with assms obtain lp d where sc: "score_of e snodes sv rd = Some (lp, d)"
    by (cases "score_of e snodes sv rd") (auto simp: report_def)
  with assms ds obtain q where q: "PhredQ_of lp = Some q"
    by (cases "PhredQ_of lp") (auto simp: report_def Let_def)
  show ?thesis
  proof (cases "q > score_threshold (opts e)")
    case False
    with assms ds sc q show ?thesis by (intro quiet) (auto simp: report_def Let_def)
  next
    case True
    let ?out2 = "out\<lparr>diagnostics := diagnostics out @ d,
                       sv_lines := sv_lines out @ [table_line e mrl sv q]\<rparr>"
    let ?r = "if prefix_fastq (opts e) \<noteq> []
              then dump_fastq e (flag sv) (support_reads sv) ?out2 else Inr ?out2"
    from assms ds sc q True obtain out3 where r: "?r = Inr out3"
      by (cases ?r) (auto simp: report_def Let_def split: if_splits)
    with assms ds sc q True
    have "out' = out3\<lparr>bed_items := (if dump_BED (opts e) \<noteq> []
                                      then bed_items out3 @ bed_track e mrl sv
                                      else bed_items out3)\<rparr>"
      by (auto simp: report_def Let_def split: if_splits)
    with sc q True r show ?thesis by (intro emitted)
  qed
qed

lemma report_returns:
  assumes "diffspan_of e sv \<noteq> None" and "score_of e snodes sv rd = Some (lp, d)"
    and "PhredQ_of lp = Some q"
    and "prefix_fastq (opts e) = [] \<or> (\<forall>k. ReadsOut e k \<noteq> None)"
  shows "\<exists>out'. report e mrl snodes sv rd out = Inr out'"
proof (cases "prefix_fastq (opts e) = []")
  case True
  with assms(1-3) show ?thesis by (auto simp: report_def Let_def)
next
  case False
  with assms(4) have total: "\<forall>k. ReadsOut e k \<noteq> None" by simp
  let ?out2 = "out\<lparr>diagnostics := diagnostics out @ d,
                     sv_lines := sv_lines out @ [table_line e mrl sv q]\<rparr>"
  from dump_fastq_loop_returns [OF total]
  obtain w where "dump_fastq e (flag sv) (support_reads sv) ?out2 = Inr w"
    unfolding dump_fastq_def by blast
  with False assms(1-3) show ?thesis by (auto simp: report_def Let_def)
qed

lemma consume_returns:
  assumes "\<exists>out'. report e mrl snodes sv
             (fold (\<lambda>i. remove_reads_in_region_if i (is_supportive sv)) snodes rd) out = Inr out'"
  shows "\<exists>r. consume e mrl snodes sv (rd, fr, out) = Inr r"
  using assms by (auto simp: consume_def Let_def)

lemma process_sv_returns:
  assumes "length snodes \<le> 2" and "lookup_regions rd snodes = Inr rs"
    and "sv = SvBuilder e (length snodes) rs (map region_reads rs) mrl"
    and "\<exists>out'. report e mrl snodes sv
             (fold (\<lambda>i. remove_reads_in_region_if i (is_supportive sv)) snodes rd) out = Inr out'"
  shows "\<exists>r. process_sv e mrl snodes (rd, fr, out) = Inr r"
  using assms(1,2) consume_returns [OF assms(4), of fr] unfolding assms(3)
  by (simp add: process_sv_def)


lemma process_sv_unfold:
  assumes "length snodes \<le> 2" and "lookup_regions rd snodes = Inr rs"
  shows "process_sv e mrl snodes (rd, fr, out)
         = consume e mrl snodes (SvBuilder e (length snodes) rs (map region_reads rs) mrl)
             (rd, fr, out)"
  using assms by (simp add: process_sv_def)










section \<open>What is written for a variant\<close>

lemma process_sv_report:
  assumes "lookup_regions rd snodes = Inr rs"
    and "sv = SvBuilder e (length snodes) rs (map region_reads rs) mrl"
    and "process_sv e mrl snodes (rd, fr, out) = Inr (rd', fr', out')"
  obtains (too_few) "num_pairs sv < min_read_pair (opts e)" and "out' = out"
  | (unreported) "\<not> min_read_pair (opts e) \<le> flag_counts sv (flag sv)" and "out' = out"
  | (reported) "min_read_pair (opts e) \<le> num_pairs sv"
      and "min_read_pair (opts e) \<le> flag_counts sv (flag sv)"
      and "report e mrl snodes sv
             (fold (\<lambda>i. remove_reads_in_region_if i (is_supportive sv)) snodes rd) out = Inr out'"
proof -
  from assms(3) obtain rs' where "lookup_regions (fst (rd, fr, out)) snodes = Inr rs'"
    and "consume e mrl snodes (SvBuilder e (length snodes) rs' (map region_reads rs') mrl)
           (rd, fr, out) = Inr (rd', fr', out')"
    by (rule process_sv_consume)
  with assms(1,2) have c: "consume e mrl snodes sv (rd, fr, out) = Inr (rd', fr', out')" by simp
  from c show ?thesis
  proof (cases rule: consume_cases)
    case early
    then show ?thesis by (intro too_few) simp_all
  next
    case full
    show ?thesis
    proof (cases "min_read_pair (opts e) \<le> flag_counts sv (flag sv)")
      case True
      with full show ?thesis by (intro reported) simp_all
    next
      case False
      with full show ?thesis by (intro unreported) simp_all
    qed
  qed
qed

lemma report_quality:
  assumes "report e mrl snodes sv rd out = Inr out'"
    and "score_of e snodes sv rd = Some (lp, d)" and "PhredQ_of lp = Some q"
  shows "sv_lines out' = (if score_threshold (opts e) < q
                          then sv_lines out @ [table_line e mrl sv q] else sv_lines out)"
  using assms(1)
proof (cases rule: report_cases)
  case (quiet lp' d' q')
  with assms(2,3) show ?thesis by simp
next
  case (emitted lp' d' q' out3)
  from emitted(1,2) assms(2,3) have q': "q' = q" by simp
  let ?out2 = "out\<lparr>diagnostics := diagnostics out @ d',
                     sv_lines := sv_lines out @ [table_line e mrl sv q']\<rparr>"
  have "sv_lines out3 = sv_lines ?out2"
  proof (cases "prefix_fastq (opts e) = []")
    case True
    with emitted(4) show ?thesis by auto
  next
    case False
    with emitted(4) have "dump_fastq_loop e (flag sv) (support_reads sv) [] ?out2 = Inr out3"
      by (simp add: dump_fastq_def)
    from dump_fastq_loop_reads [OF this] show ?thesis by simp
  qed
  with emitted(3,5) q' show ?thesis by simp
qed

lemma report_emitted:
  assumes "report e mrl snodes sv rd out = Inr out'" and "sv_lines out' \<noteq> sv_lines out"
  shows "(\<exists>PhredQ. sv_lines out' = sv_lines out @ [table_line e mrl sv PhredQ])
    \<and> (prefix_fastq (opts e) \<noteq> [] \<longrightarrow>
         map snd (fastq_records out')
           = map snd (fastq_records out)
             @ filter (\<lambda>y. \<not> skipped (flag sv) y) (support_reads sv))
    \<and> (prefix_fastq (opts e) = [] \<longrightarrow> fastq_records out' = fastq_records out)
    \<and> (dump_BED (opts e) \<noteq> [] \<longrightarrow>
         (\<exists>track. bed_items out'
            = bed_items out @ track
              # map (bed_feature_of e) (filter (\<lambda>y. \<not> skipped (flag sv) y) (support_reads sv))))
    \<and> (dump_BED (opts e) = [] \<longrightarrow> bed_items out' = bed_items out)
    \<and> line_pairs (last (sv_lines out')) = flag_counts sv (flag sv)"
  using assms(1)
proof (cases rule: report_cases)
  case (quiet lp d q)
  with assms(2) show ?thesis by simp
next
  case (emitted lp d q out3)
  let ?out2 = "out\<lparr>diagnostics := diagnostics out @ d,
                     sv_lines := sv_lines out @ [table_line e mrl sv q]\<rparr>"
  have out3: "sv_lines out3 = sv_lines ?out2 \<and> bed_items out3 = bed_items ?out2
      \<and> (prefix_fastq (opts e) \<noteq> [] \<longrightarrow>
           map snd (fastq_records out3)
             = map snd (fastq_records ?out2)
               @ filter (\<lambda>y. \<not> skipped (flag sv) y) (support_reads sv))
      \<and> (prefix_fastq (opts e) = [] \<longrightarrow> fastq_records out3 = fastq_records ?out2)"
  proof (cases "prefix_fastq (opts e) = []")
    case True
    with emitted(4) show ?thesis by auto
  next
    case False
    with emitted(4) have "dump_fastq_loop e (flag sv) (support_reads sv) [] ?out2 = Inr out3"
      by (simp add: dump_fastq_def)
    from dump_fastq_loop_reads [OF this] False show ?thesis by simp
  qed
  with emitted(5) show ?thesis
    by (auto simp: bed_track_def bed_loop_filter table_line_def)
qed

lemma process_sv_emits:
  assumes "length snodes \<le> 2" and "lookup_regions rd snodes = Inr rs"
    and "sv = SvBuilder e (length snodes) rs (map region_reads rs) mrl"
    and "min_read_pair (opts e) \<le> num_pairs sv"
    and "min_read_pair (opts e) \<le> flag_counts sv (flag sv)"
    and "diffspan_of e sv \<noteq> None"
    and "\<And>rd1. score_of e snodes sv rd1 = Some (lp, d)"
    and "PhredQ_of lp = Some q" and "score_threshold (opts e) < q"
    and "prefix_fastq (opts e) = [] \<or> (\<forall>k. ReadsOut e k \<noteq> None)"
  obtains rd' fr' out' where "process_sv e mrl snodes (rd, fr, out) = Inr (rd', fr', out')"
    and "sv_lines out' = sv_lines out @ [table_line e mrl sv q]"
    and "prefix_fastq (opts e) \<noteq> [] \<Longrightarrow>
           map snd (fastq_records out')
             = map snd (fastq_records out)
               @ filter (\<lambda>y. \<not> skipped (flag sv) y) (support_reads sv)"
    and "dump_BED (opts e) \<noteq> [] \<Longrightarrow>
           length (bed_items out')
             = length (bed_items out)
               + Suc (length (filter (\<lambda>y. \<not> skipped (flag sv) y) (support_reads sv)))"
proof -
  let ?rd1 = "fold (\<lambda>i. remove_reads_in_region_if i (is_supportive sv)) snodes rd"
  have "\<exists>out'. report e mrl snodes sv ?rd1 out = Inr out'"
    by (rule report_returns [OF assms(6) assms(7) assms(8) assms(10)])
  from process_sv_returns [OF assms(1-3) this, of fr]
  obtain rd' fr' out' where p: "process_sv e mrl snodes (rd, fr, out) = Inr (rd', fr', out')"
    by auto
  from assms(2,3) p have r: "report e mrl snodes sv ?rd1 out = Inr out'"
  proof (cases rule: process_sv_report)
    case too_few
    with assms(4) show ?thesis by simp
  next
    case unreported
    with assms(5) show ?thesis by simp
  next
    case reported
    then show ?thesis by simp
  qed
  from report_quality [OF r assms(7) assms(8)] assms(9)
  have l: "sv_lines out' = sv_lines out @ [table_line e mrl sv q]" by simp
  then have "sv_lines out' \<noteq> sv_lines out" by simp
  from report_emitted [OF r this] p l show ?thesis by (intro that [of rd' fr' out']) auto
qed

lemma dump_score:
  "score_of dump_env [0, 1]
     (spec_builder 2 [two_regions_0, two_regions_1]
        [region_reads two_regions_0, region_reads two_regions_1] 50) rd
   = Some (Fin (- 3 * ln 10), [])"
  "score_of dump_env [0, 1]
     (spec_builder 2 [mixed_0, mixed_1] [region_reads mixed_0, region_reads mixed_1] 50) rd
   = Some (Fin (- 3 * ln 10), [])"
  by (simp_all add: score_of_def ComputeProbScore_def dump_env_fields
        spec_builder_fields two_cand_concat two_cand_flag two_cand_library_pairs
        mixed_cand_concat mixed_flag mixed_library_pairs Let_def float_sub_def ln_thousandth)

lemma dump_diffspan:
  "diffspan_of dump_env
     (spec_builder 2 [two_regions_0, two_regions_1]
        [region_reads two_regions_0, region_reads two_regions_1] 50) = Some 2000"
  "diffspan_of dump_env
     (spec_builder 2 [mixed_0, mixed_1] [region_reads mixed_0, region_reads mixed_1] 50)
   = Some 2000"
  by (simp_all add: diffspan_of_def dump_env_fields spec_builder_fields two_cand_concat
        two_cand_flag two_cand_library_pairs two_cand_library_span two_cand_pair_count
        mixed_cand_concat mixed_flag mixed_library_pairs mixed_library_span mixed_pair_count
        library_fields of_c_int_def float_sub_def toward_zero_def)

lemma PhredQ_30: "PhredQ_of (Fin (- 3 * ln 10)) = Some 30"
proof -
  have "PhredQ_of (Fin (- 3 * ln 10)) = Some (min 99 (round (- 10 * (- 3 * ln 10) / ln (10 :: real))))"
    by (rule PhredQ_of_Fin) simp
  then show ?thesis by simp
qed

text \<open>
  C10, amended. For a variant that \<^verbatim>\<open>process_sv\<close> emits, that is when the call
  returns with a new line in the table, the loop of \<^verbatim>\<open>dump_fastq\<close> and the BED loop
  both pass over every supporting read whose query sequence is empty, whose quality
  string is empty, or whose flag is not the flag of the variant: the reads handed to
  the FASTQ writer are the old ones followed by the supporting reads that have a
  sequence, a quality string and the flag of the variant, in their order, and the BED
  file receives the track line followed by one feature for each of the same reads. The
  pair count of the line is \<^verbatim>\<open>svb.flag_counts[svb.flag]\<close>. With the builder of the
  specification that count is the number of observed pairs whose first read has the
  flag of the variant, each pair a pair of supporting reads, and neither the flag nor
  the count depends on the sequences and quality strings of the reads: a pair is
  counted whether or not its reads are skipped for an empty sequence or quality string,
  and a pair of another flag, whose reads are skipped for their flag, is not counted.
\<close>

theorem process_sv_skips:
  assumes "lookup_regions rd snodes = Inr rs"
    and "sv = SvBuilder e (length snodes) rs (map region_reads rs) mrl"
    and "process_sv e mrl snodes (rd, fr, out) = Inr (rd', fr', out')"
    and "sv_lines out' \<noteq> sv_lines out"
    and "written_reads = filter (\<lambda>y. query_sequence y \<noteq> [] \<and> quality_string y \<noteq> []
                                      \<and> bdflag y = flag sv) (support_reads sv)"
  shows "(\<exists>PhredQ. sv_lines out' = sv_lines out @ [table_line e mrl sv PhredQ])
    \<and> (prefix_fastq (opts e) \<noteq> [] \<longrightarrow>
         map snd (fastq_records out') = map snd (fastq_records out) @ written_reads)
    \<and> (prefix_fastq (opts e) = [] \<longrightarrow> fastq_records out' = fastq_records out)
    \<and> (dump_BED (opts e) \<noteq> [] \<longrightarrow>
         (\<exists>track. bed_items out' = bed_items out @ track # map (bed_feature_of e) written_reads))
    \<and> (dump_BED (opts e) = [] \<longrightarrow> bed_items out' = bed_items out)
    \<and> line_pairs (last (sv_lines out')) = flag_counts sv (flag sv)
    \<and> (SvBuilder e = spec_builder \<longrightarrow>
         flag_counts sv (flag sv)
           = int (length (filter (\<lambda>y. bdflag y = flag sv)
                            (pairs_of (concat (map region_reads rs)))))
         \<and> set (pairs_of (concat (map region_reads rs))) \<subseteq> set (support_reads sv)
         \<and> (\<forall>g. (\<forall>r. query_name (g r) = query_name r \<and> bdflag (g r) = bdflag r) \<longrightarrow>
                flag (spec_builder (length snodes) rs (map (map g) (map region_reads rs)) mrl)
                  = flag sv
                \<and> flag_counts
                    (spec_builder (length snodes) rs (map (map g) (map region_reads rs)) mrl)
                    (flag sv)
                  = flag_counts sv (flag sv)))"
proof -
  let ?rd1 = "fold (\<lambda>i. remove_reads_in_region_if i (is_supportive sv)) snodes rd"
  have wr: "written_reads = filter (\<lambda>y. \<not> skipped (flag sv) y) (support_reads sv)"
    unfolding assms(5) skipped_def by simp
  have r: "report e mrl snodes sv ?rd1 out = Inr out'"
    using assms(1-3)
  proof (cases rule: process_sv_report)
    case too_few
    with assms(4) show ?thesis by simp
  next
    case unreported
    with assms(4) show ?thesis by simp
  next
    case reported
    then show ?thesis by simp
  qed
  from report_emitted [OF r assms(4)]
  have outputs: "(\<exists>PhredQ. sv_lines out' = sv_lines out @ [table_line e mrl sv PhredQ])
    \<and> (prefix_fastq (opts e) \<noteq> [] \<longrightarrow>
         map snd (fastq_records out') = map snd (fastq_records out) @ written_reads)
    \<and> (prefix_fastq (opts e) = [] \<longrightarrow> fastq_records out' = fastq_records out)
    \<and> (dump_BED (opts e) \<noteq> [] \<longrightarrow>
         (\<exists>track. bed_items out' = bed_items out @ track # map (bed_feature_of e) written_reads))
    \<and> (dump_BED (opts e) = [] \<longrightarrow> bed_items out' = bed_items out)
    \<and> line_pairs (last (sv_lines out')) = flag_counts sv (flag sv)"
    unfolding wr .
  have builder: "flag_counts sv (flag sv)
           = int (length (filter (\<lambda>y. bdflag y = flag sv)
                            (pairs_of (concat (map region_reads rs)))))
         \<and> set (pairs_of (concat (map region_reads rs))) \<subseteq> set (support_reads sv)
         \<and> (\<forall>g. (\<forall>r. query_name (g r) = query_name r \<and> bdflag (g r) = bdflag r) \<longrightarrow>
                flag (spec_builder (length snodes) rs (map (map g) (map region_reads rs)) mrl)
                  = flag sv
                \<and> flag_counts
                    (spec_builder (length snodes) rs (map (map g) (map region_reads rs)) mrl)
                    (flag sv)
                  = flag_counts sv (flag sv))"
    if b: "SvBuilder e = spec_builder"
  proof -
    let ?cand = "concat (map region_reads rs)"
    have sv: "sv = spec_builder (length snodes) rs (map region_reads rs) mrl"
      using assms(2) b by simp
    have c1: "flag_counts sv (flag sv)
           = int (length (filter (\<lambda>y. bdflag y = flag sv) (pairs_of ?cand)))"
      unfolding sv by (simp add: spec_builder_fields pair_count_def)
    have c2: "set (pairs_of ?cand) \<subseteq> set (support_reads sv)"
      unfolding sv by (simp add: spec_builder_fields pairs_of_observed)
    have c3: "flag (spec_builder (length snodes) rs (map (map g) (map region_reads rs)) mrl)
                  = flag sv
                \<and> flag_counts
                    (spec_builder (length snodes) rs (map (map g) (map region_reads rs)) mrl)
                    (flag sv)
                  = flag_counts sv (flag sv)"
      if g: "\<forall>r. query_name (g r) = query_name r \<and> bdflag (g r) = bdflag r" for g
    proof -
      have cc: "concat (map (map g) (map region_reads rs)) = map g ?cand"
        by (simp add: map_concat)
      from g have n: "\<And>r. query_name (g r) = query_name r" and f: "\<And>r. bdflag (g r) = bdflag r"
        by simp_all
      show ?thesis unfolding sv
        by (simp only: spec_builder_fields cc pair_count_map [of g, OF n f]
              dominant_flag_map [of g, OF n f])
    qed
    from c1 c2 c3 show ?thesis by blast
  qed
  from outputs builder show ?thesis by blast
qed

text \<open>
  In \<open>two_regions\<close> the second read of the pair \<open>p2\<close> has no sequence: it is a
  supporting read and the table reports two pairs, but only three of the four
  supporting reads are written to the FASTQ files and the BED file has the track line
  and three features.
\<close>

theorem process_sv_skips_witness:
  "case process_sv dump_env 50 [0, 1] (two_regions, [], no_output) of
     Inl err \<Rightarrow> False
   | Inr (rd', fr', out') \<Rightarrow>
       map line_pairs (sv_lines out') = [2]
       \<and> map snd (fastq_records out')
           = [big ''p1'' 1000 2500, big ''p2'' 1010 2500, big ''p1'' 3000 (- 2500)]
       \<and> length (bed_items out') = 4
       \<and> big_noseq ''p2'' 3010 (- 2500) \<in> set (support_reads
           (SvBuilder dump_env 2 [two_regions_0, two_regions_1]
              [region_reads two_regions_0, region_reads two_regions_1] 50))"
proof -
  let ?sv = "spec_builder 2 [two_regions_0, two_regions_1]
               [region_reads two_regions_0, region_reads two_regions_1] 50"
  have sv: "?sv = SvBuilder dump_env (length [0, 1 :: int]) [two_regions_0, two_regions_1]
                    (map region_reads [two_regions_0, two_regions_1]) 50"
    by (simp add: dump_env_fields numeral_2_eq_2)
  have np: "min_read_pair (opts dump_env) \<le> num_pairs ?sv"
    by (simp add: dump_env_fields spec_builder_fields two_cand_concat two_cand_observed)
  have fc: "min_read_pair (opts dump_env) \<le> flag_counts ?sv (flag ?sv)"
    by (simp add: dump_env_fields spec_builder_fields two_cand_concat two_cand_flag
          two_cand_pair_count)
  have wr: "filter (\<lambda>y. query_sequence y \<noteq> [] \<and> quality_string y \<noteq> [] \<and> bdflag y = flag ?sv)
              (support_reads ?sv)
            = [big ''p1'' 1000 2500, big ''p2'' 1010 2500, big ''p1'' 3000 (- 2500)]"
    by (simp add: spec_builder_fields two_cand_concat two_cand_flag two_cand_written)
  obtain rd' fr' out' where
    r: "process_sv dump_env 50 [0, 1] (two_regions, [], no_output) = Inr (rd', fr', out')"
    and l: "sv_lines out' = sv_lines no_output @ [table_line dump_env 50 ?sv 30]"
  proof (rule process_sv_emits [OF _ two_regions_lookup sv np fc _ dump_score(1) PhredQ_30,
        of "[]" no_output])
    show "length [0, 1 :: int] \<le> 2" by simp
    show "diffspan_of dump_env ?sv \<noteq> None" by (simp add: dump_diffspan)
    show "score_threshold (opts dump_env) < 30" by (simp add: dump_env_fields)
    show "prefix_fastq (opts dump_env) = [] \<or> (\<forall>k. ReadsOut dump_env k \<noteq> None)"
      by (simp add: dump_env_fields)
  qed
  from l have ne: "sv_lines out' \<noteq> sv_lines no_output" by simp
  from process_sv_skips [OF two_regions_lookup sv r ne wr [symmetric]]
  have "map line_pairs (sv_lines out') = [2]"
    and "map snd (fastq_records out')
         = [big ''p1'' 1000 2500, big ''p2'' 1010 2500, big ''p1'' 3000 (- 2500)]"
    and "length (bed_items out') = 4"
    by (auto simp: dump_env_fields no_output_def spec_builder_fields two_cand_concat two_cand_flag
          two_cand_pair_count table_line_def)
  moreover have "big_noseq ''p2'' 3010 (- 2500) \<in> set (support_reads
         (SvBuilder dump_env 2 [two_regions_0, two_regions_1]
            [region_reads two_regions_0, region_reads two_regions_1] 50))"
    by (simp add: dump_env_fields spec_builder_fields two_cand_concat two_cand_observed)
  ultimately show ?thesis using r by simp
qed

text \<open>
  The claim as it is written fails for a read that is skipped because of its flag. In
  \<open>mixed_regions\<close> the two reads of the pair \<open>m\<close> are supporting reads with the
  flag \<^verbatim>\<open>ARP_FF\<close>, the flag of the variant is \<^verbatim>\<open>ARP_FR_big_insert\<close>, both writers
  skip them, and the table reports two pairs, as it does for \<open>two_regions\<close>, which
  has the same pairs but \<open>m\<close>: the skipped reads do not contribute to the count.
\<close>

theorem process_sv_skips_counterexample:
  "(case process_sv dump_env 50 [0, 1] (mixed_regions, [], no_output) of
      Inl err \<Rightarrow> False
    | Inr (rd', fr', out') \<Rightarrow>
        map line_pairs (sv_lines out') = [2]
        \<and> map snd (fastq_records out')
            = [big ''p1'' 1000 2500, big ''p2'' 1010 2500, big ''p1'' 3000 (- 2500)])
   \<and> support_reads (SvBuilder dump_env 2 [mixed_0, mixed_1]
                      [region_reads mixed_0, region_reads mixed_1] 50)
       = [big ''p1'' 1000 2500, big ''p2'' 1010 2500, ff ''m'' 1020 2600,
          big ''p1'' 3000 (- 2500), big_noseq ''p2'' 3010 (- 2500), ff ''m'' 3020 (- 2600)]
   \<and> flag (SvBuilder dump_env 2 [mixed_0, mixed_1]
              [region_reads mixed_0, region_reads mixed_1] 50) = ARP_FR_big_insert
   \<and> skipped ARP_FR_big_insert (ff ''m'' 1020 2600)
   \<and> skipped ARP_FR_big_insert (ff ''m'' 3020 (- 2600))
   \<and> (case process_sv dump_env 50 [0, 1] (two_regions, [], no_output) of
        Inl err \<Rightarrow> False
      | Inr (rd', fr', out') \<Rightarrow> map line_pairs (sv_lines out') = [2])"
proof -
  let ?sv = "spec_builder 2 [mixed_0, mixed_1] [region_reads mixed_0, region_reads mixed_1] 50"
  let ?tv = "spec_builder 2 [two_regions_0, two_regions_1]
               [region_reads two_regions_0, region_reads two_regions_1] 50"
  have sv: "?sv = SvBuilder dump_env (length [0, 1 :: int]) [mixed_0, mixed_1]
                    (map region_reads [mixed_0, mixed_1]) 50"
    by (simp add: dump_env_fields numeral_2_eq_2)
  have tv: "?tv = SvBuilder dump_env (length [0, 1 :: int]) [two_regions_0, two_regions_1]
                    (map region_reads [two_regions_0, two_regions_1]) 50"
    by (simp add: dump_env_fields numeral_2_eq_2)
  have np: "min_read_pair (opts dump_env) \<le> num_pairs ?sv"
    by (simp add: dump_env_fields spec_builder_fields mixed_cand_concat mixed_observed)
       (simp add: mixed_cand_list)
  have fc: "min_read_pair (opts dump_env) \<le> flag_counts ?sv (flag ?sv)"
    by (simp add: dump_env_fields spec_builder_fields mixed_cand_concat mixed_flag
          mixed_pair_count)
  have tnp: "min_read_pair (opts dump_env) \<le> num_pairs ?tv"
    by (simp add: dump_env_fields spec_builder_fields two_cand_concat two_cand_observed)
  have tfc: "min_read_pair (opts dump_env) \<le> flag_counts ?tv (flag ?tv)"
    by (simp add: dump_env_fields spec_builder_fields two_cand_concat two_cand_flag
          two_cand_pair_count)
  have side: "length [0, 1 :: int] \<le> 2" "score_threshold (opts dump_env) < 30"
    "prefix_fastq (opts dump_env) = [] \<or> (\<forall>k. ReadsOut dump_env k \<noteq> None)"
    "diffspan_of dump_env ?sv \<noteq> None" "diffspan_of dump_env ?tv \<noteq> None"
    "prefix_fastq (opts dump_env) \<noteq> []"
    by (simp_all add: dump_env_fields dump_diffspan)
  obtain rd' fr' out' where
    r: "process_sv dump_env 50 [0, 1] (mixed_regions, [], no_output) = Inr (rd', fr', out')"
    and l: "sv_lines out' = sv_lines no_output @ [table_line dump_env 50 ?sv 30]"
    and f: "map snd (fastq_records out')
             = map snd (fastq_records no_output)
               @ filter (\<lambda>y. \<not> skipped (flag ?sv) y) (support_reads ?sv)"
    using process_sv_emits [OF side(1) mixed_regions_lookup sv np fc side(4) dump_score(2)
        PhredQ_30 side(2) side(3), of "[]" no_output] side(6) by metis
  obtain rd2 fr2 out2 where
    r2: "process_sv dump_env 50 [0, 1] (two_regions, [], no_output) = Inr (rd2, fr2, out2)"
    and l2: "sv_lines out2 = sv_lines no_output @ [table_line dump_env 50 ?tv 30]"
    using process_sv_emits [OF side(1) two_regions_lookup tv tnp tfc side(5) dump_score(1)
        PhredQ_30 side(2) side(3), of "[]" no_output] by metis
  have fl: "flag ?sv = ARP_FR_big_insert"
    by (simp add: spec_builder_fields mixed_cand_concat mixed_flag)
  have sr: "support_reads ?sv = mixed_cand"
    by (simp add: spec_builder_fields mixed_cand_concat mixed_observed)
  have wr: "filter (\<lambda>y. \<not> skipped ARP_FR_big_insert y) mixed_cand
            = [big ''p1'' 1000 2500, big ''p2'' 1010 2500, big ''p1'' 3000 (- 2500)]"
    using mixed_written by (simp add: skipped_def)
  have c1: "map line_pairs (sv_lines out') = [2]"
    unfolding l by (simp add: no_output_def table_line_def spec_builder_fields
        mixed_cand_concat mixed_flag mixed_pair_count)
  have c2: "map snd (fastq_records out')
            = [big ''p1'' 1000 2500, big ''p2'' 1010 2500, big ''p1'' 3000 (- 2500)]"
    unfolding f fl sr wr by (simp add: no_output_def)
  have c3: "map line_pairs (sv_lines out2) = [2]"
    unfolding l2 by (simp add: no_output_def table_line_def spec_builder_fields
        two_cand_concat two_cand_flag two_cand_pair_count)
  have c4: "skipped ARP_FR_big_insert (ff ''m'' 1020 2600)"
    "skipped ARP_FR_big_insert (ff ''m'' 3020 (- 2600))"
    by (simp_all add: skipped_def ff_fields)
  from r r2 c1 c2 c3 c4 fl sr show ?thesis
    by (simp add: dump_env_fields mixed_cand_list)
qed

section \<open>The removal of spent evidence\<close>

lemma lookup_regions_Inr:
  "lookup_regions rd snodes = Inr rs
     \<Longrightarrow> length rs = length snodes \<and> (\<forall>k < length snodes. region rd (snodes ! k) = Some (rs ! k))"
proof (induction snodes arbitrary: rs)
  case Nil
  then show ?case by simp
next
  case (Cons i snodes)
  from Cons.prems obtain r where r: "region rd i = Some r"
    by (cases "region rd i") simp_all
  with Cons.prems obtain rs' where rs': "lookup_regions rd snodes = Inr rs'" and rs: "rs = r # rs'"
    by (cases "lookup_regions rd snodes") simp_all
  from Cons.IH [OF rs'] r rs show ?case by (auto simp: nth_Cons split: nat.splits)
qed

lemma lookup_regions_reads:
  assumes "lookup_regions rd snodes = Inr rs" and "j \<in> set snodes" and "region rd j = Some r"
  shows "set (region_reads r) \<subseteq> set (concat (map region_reads rs))"
proof -
  from assms(2) obtain k where k: "k < length snodes" "snodes ! k = j"
    by (auto simp: in_set_conv_nth)
  with lookup_regions_Inr [OF assms(1)] assms(3) have "rs ! k = r" "k < length rs" by auto
  then have "r \<in> set rs" by (auto simp: in_set_conv_nth)
  then show ?thesis by auto
qed

lemma region_fold_remove:
  "region (fold (\<lambda>i. remove_reads_in_region_if i p) snodes rd) j =
     (if j \<in> set snodes
      then map_option (\<lambda>r. r\<lparr>region_reads := filter (\<lambda>x. \<not> p x) (region_reads r)\<rparr>) (region rd j)
      else region rd j)"
proof (induction snodes arbitrary: rd)
  case Nil
  then show ?case by simp
next
  case (Cons i snodes)
  show ?case
    by (cases "region rd i") (auto simp: Cons.IH region_remove_reads)
qed

lemma read_regions_fold_remove:
  "read_regions (fold (\<lambda>i. remove_reads_in_region_if i p) snodes rd) = read_regions rd"
  by (induction snodes arbitrary: rd)
     (simp_all add: remove_reads_in_region_if_def split: option.splits)


lemma spec_builder_marks_observed: "marks_observed (spec_builder n regs rss mrl) (concat rss)"
proof -
  have "(0 = count_list (waiting_names cand) (query_name r))
          = (count_list (map query_name cand) (query_name r) = 2)"
    if "r \<in> set cand" for r and cand :: "read list"
  proof -
    have "(0 = count_list (waiting_names cand) (query_name r))
            = (query_name r \<notin> set (waiting_names cand))"
      using count_list_0_iff [of "waiting_names cand" "query_name r"] by auto
    with that show ?thesis by (auto simp: waiting_names_def)
  qed
  then show ?thesis by (simp add: marks_observed_def is_supportive_def spec_builder_def)
qed

lemma process_sv_regions:
  assumes "lookup_regions rd snodes = Inr rs"
    and "sv = SvBuilder e (length snodes) rs (map region_reads rs) mrl"
    and "marks_observed sv (concat (map region_reads rs))"
    and "process_sv e mrl snodes (rd, fr, out) = Inr (rd', fr', out')"
  shows "region rd' j =
     (if j \<in> set snodes
      then map_option
             (\<lambda>r. r\<lparr>region_reads :=
                    filter (\<lambda>x. count_list (map query_name (concat (map region_reads rs)))
                                   (query_name x) \<noteq> 2) (region_reads r)\<rparr>)
             (region rd j)
      else region rd j)"
proof -
  let ?cand = "concat (map region_reads rs)"
  let ?rd1 = "fold (\<lambda>i. remove_reads_in_region_if i (is_supportive sv)) snodes rd"
  from assms(4) obtain rs' where "lookup_regions (fst (rd, fr, out)) snodes = Inr rs'"
    and "consume e mrl snodes (SvBuilder e (length snodes) rs' (map region_reads rs') mrl)
           (rd, fr, out) = Inr (rd', fr', out')"
    by (rule process_sv_consume)
  with assms(1,2) have c: "consume e mrl snodes sv (rd, fr, out) = Inr (rd', fr', out')" by simp
  from c have "region rd' j = region ?rd1 j"
    by (cases rule: consume_cases) (simp_all add: region_fold_erase_read)
  also have "\<dots> = (if j \<in> set snodes
      then map_option (\<lambda>r. r\<lparr>region_reads := filter (\<lambda>x. \<not> is_supportive sv x) (region_reads r)\<rparr>)
             (region rd j)
      else region rd j)"
    by (rule region_fold_remove)
  also have "\<dots> = (if j \<in> set snodes
      then map_option
             (\<lambda>r. r\<lparr>region_reads :=
                    filter (\<lambda>x. count_list (map query_name ?cand) (query_name x) \<noteq> 2)
                      (region_reads r)\<rparr>)
             (region rd j)
      else region rd j)"
  proof (cases "j \<in> set snodes")
    case False
    then show ?thesis by simp
  next
    case True
    show ?thesis
    proof (cases "region rd j")
      case None
      then show ?thesis by simp
    next
      case (Some r)
      from lookup_regions_reads [OF assms(1) True Some] assms(3)
      have "\<forall>x \<in> set (region_reads r).
              is_supportive sv x = (count_list (map query_name ?cand) (query_name x) = 2)"
        by (auto simp: marks_observed_def)
      then have "filter (\<lambda>x. \<not> is_supportive sv x) (region_reads r)
          = filter (\<lambda>x. count_list (map query_name ?cand) (query_name x) \<noteq> 2) (region_reads r)"
        by (intro filter_cong) simp_all
      with True Some show ?thesis by simp
    qed
  qed
  finally show ?thesis .
qed

lemma process_sv_early:
  assumes "length snodes \<le> 2" and "lookup_regions rd snodes = Inr rs"
    and "sv = SvBuilder e (length snodes) rs (map region_reads rs) mrl"
    and "num_pairs sv < min_read_pair (opts e)"
  shows "process_sv e mrl snodes (rd, fr, out)
         = Inr (fold (\<lambda>i. remove_reads_in_region_if i (is_supportive sv)) snodes rd, fr, out)"
  using assms by (simp add: process_sv_def consume_def Let_def)

text \<open>
  C4. \<^verbatim>\<open>process_sv\<close> removes from each region of the node set exactly the reads
  whose query name appears twice among the candidate reads, the reads of the regions of
  the node set, and leaves every other region as it is; this holds of every call that
  returns. The removal comes before the test on the number of pairs: when there are
  fewer pairs than \<^verbatim>\<open>min_read_pair\<close> the call returns with the output and
  \<^verbatim>\<open>free_nodes\<close> as they were, so no variant is reported, and with the reads removed.
  The builder is taken to meet its contract, \<open>marks_observed\<close>.
\<close>

theorem process_sv_removes:
  assumes "length snodes \<le> 2"
    and "lookup_regions rd snodes = Inr rs"
    and "sv = SvBuilder e (length snodes) rs (map region_reads rs) mrl"
    and "marks_observed sv (concat (map region_reads rs))"
    and "removed = (\<lambda>j. if j \<in> set snodes
           then map_option
                  (\<lambda>r. r\<lparr>region_reads :=
                         filter (\<lambda>x. count_list (map query_name (concat (map region_reads rs)))
                                        (query_name x) \<noteq> 2) (region_reads r)\<rparr>)
                  (region rd j)
           else region rd j)"
  shows "(num_pairs sv < min_read_pair (opts e) \<longrightarrow>
            (\<exists>rd'. process_sv e mrl snodes (rd, fr, out) = Inr (rd', fr, out)
                   \<and> (\<forall>j. region rd' j = removed j)))
       \<and> (\<forall>rd' fr' out'. process_sv e mrl snodes (rd, fr, out) = Inr (rd', fr', out')
            \<longrightarrow> (\<forall>j. region rd' j = removed j))"
proof -
  have all: "region rd' j = removed j"
    if "process_sv e mrl snodes (rd, fr, out) = Inr (rd', fr', out')" for rd' fr' out' j
    unfolding assms(5) by (rule process_sv_regions [OF assms(2,3,4) that])
  have "\<exists>rd'. process_sv e mrl snodes (rd, fr, out) = Inr (rd', fr, out)
                   \<and> (\<forall>j. region rd' j = removed j)"
    if "num_pairs sv < min_read_pair (opts e)"
    using process_sv_early [OF assms(1,2,3) that, of fr out] all by blast
  with all show ?thesis by blast
qed

text \<open>
  With a threshold of three pairs the two pairs of \<open>two_regions\<close> are too few: the
  call returns without output, region 0 keeps only the read \<open>q\<close>, which has no
  mate, and region 1 keeps no read.
\<close>

theorem process_sv_removes_witness:
  "(\<exists>rd'. process_sv strict_env 50 [0, 1] (two_regions, [], no_output) = Inr (rd', [], no_output)
      \<and> map_option region_reads (region rd' 0) = Some [big ''q'' 1020 9000]
      \<and> map_option region_reads (region rd' 1) = Some [])
   \<and> num_pairs (SvBuilder strict_env 2 [two_regions_0, two_regions_1]
                   [region_reads two_regions_0, region_reads two_regions_1] 50) = 2
   \<and> min_read_pair (opts strict_env) = 3"
proof -
  let ?sv = "spec_builder 2 [two_regions_0, two_regions_1]
               (map region_reads [two_regions_0, two_regions_1]) 50"
  have sv: "?sv = SvBuilder strict_env (length [0, 1 :: int]) [two_regions_0, two_regions_1]
                    (map region_reads [two_regions_0, two_regions_1]) 50"
    by (simp add: strict_env_fields numeral_2_eq_2)
  have np: "num_pairs ?sv = 2"
    by (simp add: spec_builder_fields two_cand_concat two_cand_observed)
  have len: "length [0, 1 :: int] \<le> 2" by simp
  have lt: "num_pairs ?sv < min_read_pair (opts strict_env)"
    unfolding np by (simp add: strict_env_fields)
  from process_sv_removes [OF len two_regions_lookup sv spec_builder_marks_observed refl,
      of "[]" no_output] lt
  obtain rd' where r: "process_sv strict_env 50 [0, 1] (two_regions, [], no_output)
      = Inr (rd', [], no_output)"
    and reg: "\<And>j. region rd' j =
        (if j \<in> set [0, 1]
         then map_option
                (\<lambda>r. r\<lparr>region_reads :=
                       filter (\<lambda>x. count_list (map query_name
                                       (concat (map region_reads [two_regions_0, two_regions_1])))
                                      (query_name x) \<noteq> 2) (region_reads r)\<rparr>)
                (region two_regions j)
         else region two_regions j)"
    by blast
  have "map_option region_reads (region rd' 0) = Some [big ''q'' 1020 9000]"
    unfolding reg
    by (simp add: two_regions_region two_cand_concat two_cand_query_names)
       (simp add: two_regions_0_def big_fields)
  moreover have "map_option region_reads (region rd' 1) = Some []"
    unfolding reg
    by (simp add: two_regions_region two_cand_concat two_cand_query_names)
       (simp add: two_regions_1_def big_fields)
  ultimately show ?thesis using r np by (auto simp: strict_env_fields)
qed

section \<open>A call that stops early\<close>

lemma loop_report:
  "report scenario_env 50 [0, 1] loop_sv rd no_output = Inr loop_out"
proof -
  have d: "diffspan_of scenario_env loop_sv = Some 550"
    by (simp add: diffspan_of_def loop_sv_fields scenario_env_fields library_fields of_c_int_def
          float_sub_def toward_zero_def)
  have sc: "score_of scenario_env [0, 1] loop_sv rd = Some (Fin (- 3 * ln 10), [])"
    by (simp add: score_of_def ComputeProbScore_def loop_sv_fields scenario_env_fields
          scenario_opts_fields Let_def float_sub_def ln_thousandth)
  have q: "PhredQ_of (Fin (- (3 * ln 10))) = Some 30" using PhredQ_30 by simp
  show ?thesis
    by (simp add: report_def d sc q scenario_env_fields scenario_opts_fields
          loop_out_def no_output_def Let_def)
qed

lemma is_supportive_loop_sv: "is_supportive loop_sv r"
  by (simp add: is_supportive_def loop_sv_fields)

lemma loop_first:
  "process_sv scenario_env 50 [0, 1] (loop_regions, [], no_output) = Inr (loop_after, [0, 1], loop_out)"
proof -
  have sv: "SvBuilder scenario_env (length [0, 1 :: int]) [loop_0, loop_1]
              (map region_reads [loop_0, loop_1]) 50 = loop_sv"
    by (simp add: scenario_env_fields loop_sv_def numeral_2_eq_2)
  have rd1: "remove_reads_in_region_if 1 (is_supportive loop_sv)
               (remove_reads_in_region_if 0 (is_supportive loop_sv) loop_regions)
      = loop_regions\<lparr>regions := [Some (loop_0\<lparr>region_reads := []\<rparr>), Some (loop_1\<lparr>region_reads := []\<rparr>)]\<rparr>"
    by (simp add: remove_reads_in_region_if_def region_def loop_regions_eq is_supportive_loop_sv)
  have rd2: "erase_read ''d'' (erase_read ''c'' (erase_read ''b'' (erase_read ''a''
      (loop_regions\<lparr>regions := [Some (loop_0\<lparr>region_reads := []\<rparr>), Some (loop_1\<lparr>region_reads := []\<rparr>)]\<rparr>))))
      = loop_after"
    by (simp add: erase_read_def loop_regions_eq loop_after_def)
  have "consume scenario_env 50 [0, 1] loop_sv (loop_regions, [], no_output)
      = Inr (loop_after, [0, 1], loop_out)"
    by (simp add: consume_def Let_def rd1 rd2 loop_report loop_sv_fields scenario_env_fields
          scenario_opts_fields insort_insert_key_def)
  moreover have "process_sv scenario_env 50 [0, 1] (loop_regions, [], no_output)
      = consume scenario_env 50 [0, 1]
          (SvBuilder scenario_env (length [0, 1 :: int]) [loop_0, loop_1]
             (map region_reads [loop_0, loop_1]) 50) (loop_regions, [], no_output)"
    by (rule process_sv_unfold [OF _ loop_lookup]) simp
  ultimately show ?thesis unfolding sv by simp
qed

lemma loop_second_builder: "num_pairs (spec_builder n regs [[]] mrl) = 0"
  by (simp add: spec_builder_fields observed_def)

lemma loop_second:
  "process_sv scenario_env 50 [1] (loop_after, [0, 1], loop_out) = Inr (loop_after, [0, 1], loop_out)"
proof -
  have lk: "lookup_regions loop_after [1] = Inr [loop_1\<lparr>region_reads := []\<rparr>]"
    by (simp add: loop_after_def region_def)
  have len: "length [1 :: int] \<le> 2" by simp
  have sv: "SvBuilder scenario_env (length [1 :: int]) [loop_1\<lparr>region_reads := []\<rparr>]
              (map region_reads [loop_1\<lparr>region_reads := []\<rparr>]) 50
            = SvBuilder scenario_env 1 [loop_1\<lparr>region_reads := []\<rparr>] [[]] 50"
    by simp
  have early: "num_pairs (SvBuilder scenario_env 1 [loop_1\<lparr>region_reads := []\<rparr>] [[]] 50)
                 < min_read_pair (opts scenario_env)"
    by (simp add: loop_second_builder scenario_env_fields scenario_opts_fields)
  have same: "remove_reads_in_region_if 1 p loop_after = loop_after" for p
    by (simp add: remove_reads_in_region_if_def region_def loop_after_def)
  from process_sv_early [OF len lk sv [symmetric] early, where fr = "[0, 1]" and out = loop_out]
  show ?thesis by (simp add: same)
qed

lemma loop_exists:
  "region_exists loop_regions 0" "region_exists loop_regions 1"
  "region_exists loop_after 0" "region_exists loop_after 1"
  by (simp_all add: region_exists_def region_def loop_regions_eq loop_after_def)

lemma loop_observe:
  "observe 0 1 2 True loop_regions = loop_visits ! 0"
  "observe 1 1 2 True loop_after = loop_visits ! 1"
  by (simp_all add: observe_def loop_exists loop_graph loop_after_graph edge_weight_def
        loop_visits_def)

lemma loop_walk:
  "walk_graph scenario_env 50
     \<lparr>w_graph = [(0, [(1, 2)]), (1, [(0, 2), (1, 2)])], w_cursor = Some 0, w_need_incr = True,
      w_rdata = loop_regions, w_free = [], w_out = no_output, w_log = []\<rparr>
   = Inr \<lparr>w_graph = [], w_cursor = None, w_need_incr = False,
          w_rdata = loop_after, w_free = [0, 1], w_out = loop_out, w_log = loop_visits\<rparr>"
  by (simp add: walk_graph.simps walk_component.simps walk_tail_def visit_edge_def erase_node_def
        advance_def loop_exists loop_first loop_second loop_observe scenario_env_fields
        scenario_opts_fields map_update_def map_erase_def next_key_def erase_edge_def
        subgraph_of_def Let_def loop_visits_def)


lemma loop_build:
  "build_connection scenario_env 50 (loop_regions, no_output)
   = Inr (loop_cleared, loop_out, loop_visits)"
proof -
  have "free_regions scenario_env [0, 1] loop_after = Inr loop_cleared"
    by (simp add: num_reads_in_region_def region_def loop_after_def clear_region_def
          region_exists_def scenario_env_fields scenario_opts_fields loop_cleared_def)
  then show ?thesis
    by (simp add: build_connection_def loop_graph first_key_def loop_walk)
qed

lemma graph_fold_remove:
  "region_graph (fold (\<lambda>i. remove_reads_in_region_if i p) snodes rd) = region_graph rd"
  by (simp add: region_graph_def read_regions_fold_remove)

text \<open>
  C9, amended. When \<^verbatim>\<open>process_sv\<close> stops because there are fewer pairs than
  \<^verbatim>\<open>min_read_pair\<close>, it returns before the node set is entered in \<^verbatim>\<open>free_nodes\<close> and
  before the reads of \<^verbatim>\<open>reads_to_free\<close> are erased: the call returns with
  \<^verbatim>\<open>free_nodes\<close> and the output as they were, the reverse lookup of the store, and
  with it the graph of the store, unchanged, and the reads that \<^verbatim>\<open>is_supportive\<close>
  accepts removed from the regions of the node set. So the call adds none of its regions
  to the candidates of the pass that frees regions: a region is a candidate after the
  call if and only if it was one before.
\<close>

theorem process_sv_early_return:
  assumes "length snodes \<le> 2"
    and "lookup_regions rd snodes = Inr rs"
    and "sv = SvBuilder e (length snodes) rs (map region_reads rs) mrl"
    and "num_pairs sv < min_read_pair (opts e)"
  shows "\<exists>rd'. process_sv e mrl snodes (rd, fr, out) = Inr (rd', fr, out)
           \<and> read_regions rd' = read_regions rd
           \<and> region_graph rd' = region_graph rd
           \<and> (\<forall>j. region rd' j =
                 (if j \<in> set snodes
                  then map_option
                         (\<lambda>r. r\<lparr>region_reads :=
                                filter (\<lambda>x. \<not> is_supportive sv x) (region_reads r)\<rparr>)
                         (region rd j)
                  else region rd j))"
  using process_sv_early [OF assms, of fr out]
  by (simp add: read_regions_fold_remove graph_fold_remove region_fold_remove)

text \<open>
  With a threshold of three pairs the call on both regions of \<open>two_regions\<close> stops
  early: \<^verbatim>\<open>free_nodes\<close> stays empty and the reverse lookup keeps the three names,
  while region 1 loses both its reads.
\<close>

theorem process_sv_early_return_witness:
  "\<exists>rd'. process_sv strict_env 50 [0, 1] (two_regions, [], no_output) = Inr (rd', [], no_output)
      \<and> read_regions rd' = [(''p1'', [0, 1]), (''p2'', [0, 1]), (''q'', [0])]
      \<and> map_option region_reads (region two_regions 1)
          = Some [big ''p1'' 3000 (- 2500), big_noseq ''p2'' 3010 (- 2500)]
      \<and> map_option region_reads (region rd' 1) = Some []"
proof -
  let ?sv = "spec_builder 2 [two_regions_0, two_regions_1]
               (map region_reads [two_regions_0, two_regions_1]) 50"
  have sv: "?sv = SvBuilder strict_env (length [0, 1 :: int]) [two_regions_0, two_regions_1]
                    (map region_reads [two_regions_0, two_regions_1]) 50"
    by (simp add: strict_env_fields numeral_2_eq_2)
  have np: "num_pairs ?sv = 2"
    by (simp add: spec_builder_fields two_cand_concat two_cand_observed)
  have len: "length [0, 1 :: int] \<le> 2" by simp
  have lt: "num_pairs ?sv < min_read_pair (opts strict_env)"
    unfolding np by (simp add: strict_env_fields)
  have wn: "waiting_names two_cand = [''q'']"
    by (simp add: waiting_names_def two_cand_query_names)
  have sup: "is_supportive ?sv x = (query_name x \<noteq> ''q'')" for x
    by (auto simp: is_supportive_def spec_builder_fields two_cand_concat wn)
  from process_sv_early_return [OF len two_regions_lookup sv lt, of "[]" no_output]
  obtain rd' where r: "process_sv strict_env 50 [0, 1] (two_regions, [], no_output)
      = Inr (rd', [], no_output)"
    and rr: "read_regions rd' = read_regions two_regions"
    and reg: "\<And>j. region rd' j =
        (if j \<in> set [0, 1]
         then map_option
                (\<lambda>r. r\<lparr>region_reads := filter (\<lambda>x. \<not> is_supportive ?sv x) (region_reads r)\<rparr>)
                (region two_regions j)
         else region two_regions j)"
    by blast
  have "filter (\<lambda>x. \<not> f x) (region_reads two_regions_1) = []"
    if "\<And>x. f x = (query_name x \<noteq> ''q'')" for f
    by (simp add: that two_regions_1_def big_fields)
  from this [of "is_supportive ?sv", OF sup] have "map_option region_reads (region rd' 1) = Some []"
    unfolding reg by (simp add: two_regions_region)
  moreover have "map_option region_reads (region two_regions 1)
          = Some [big ''p1'' 3000 (- 2500), big_noseq ''p2'' 3010 (- 2500)]"
    by (simp add: two_regions_region two_regions_1_def)
  ultimately show ?thesis using r rr by (auto simp: two_regions_read_regions)
qed

text \<open>
  The claim as it is written fails where it says that the regions of such a call are
  not candidates for the pass that frees regions at the end of the same
  \<^verbatim>\<open>build_connection\<close>. On \<open>loop_regions\<close> the call for the edge from region 0 to
  region 1 consumes all four pairs and enters both regions in \<^verbatim>\<open>free_nodes\<close>; the call
  for the loop at region 1 then finds no pair and stops early; region 1 is a candidate
  all the same, and the pass erases it.
\<close>

theorem process_sv_early_return_counterexample:
  "build_connection scenario_env 50 (loop_regions, no_output)
     = Inr (loop_cleared, loop_out, loop_visits)
   \<and> map (\<lambda>v. (v_tail v, v_s1 v, v_processed v)) loop_visits = [(0, 1, True), (1, 1, True)]
   \<and> process_sv scenario_env 50 [0, 1] (loop_regions, [], no_output)
       = Inr (loop_after, [0, 1], loop_out)
   \<and> lookup_regions loop_after [1] = Inr [loop_1\<lparr>region_reads := []\<rparr>]
   \<and> num_pairs (SvBuilder scenario_env 1 [loop_1\<lparr>region_reads := []\<rparr>] [[]] 50)
       < min_read_pair (opts scenario_env)
   \<and> process_sv scenario_env 50 [1] (loop_after, [0, 1], loop_out)
       = Inr (loop_after, [0, 1], loop_out)
   \<and> region loop_after 1 = Some (loop_1\<lparr>region_reads := []\<rparr>)
   \<and> region loop_cleared 1 = None"
proof -
  have "map (\<lambda>v. (v_tail v, v_s1 v, v_processed v)) loop_visits = [(0, 1, True), (1, 1, True)]"
    by (simp add: loop_visits_def)
  moreover have "lookup_regions loop_after [1] = Inr [loop_1\<lparr>region_reads := []\<rparr>]"
    and "region loop_after 1 = Some (loop_1\<lparr>region_reads := []\<rparr>)"
    and "region loop_cleared 1 = None"
    by (simp_all add: loop_after_def loop_cleared_def region_def)
  moreover have "num_pairs (SvBuilder scenario_env 1 [loop_1\<lparr>region_reads := []\<rparr>] [[]] 50)
       < min_read_pair (opts scenario_env)"
    by (simp add: scenario_env_fields scenario_opts_fields loop_second_builder)
  ultimately show ?thesis using loop_build loop_first loop_second by simp
qed

section \<open>The flush of a region\<close>











section \<open>The open region and the window\<close>

lemma gaps_within_snoc:
  "gaps_within w (rs @ [a]) =
     (gaps_within w rs \<and> (rs \<noteq> [] \<longrightarrow> tid a = tid (last rs) \<and> pos a - pos (last rs) \<le> w))"
  by (induction w rs rule: gaps_within.induct) auto

lemma process_breakpoint_frame:
  assumes "process_breakpoint e s = Inr s'"
  shows "max_read_window_size s' = max_read_window_size s
    \<and> region_end_tid s' = region_end_tid s \<and> region_end_pos s' = region_end_pos s
    \<and> region_start_tid s' = region_start_tid s \<and> region_start_pos s' = region_start_pos s
    \<and> reads_in_current_region s' = reads_in_current_region s"
  using assms
  by (auto simp: process_breakpoint_def Let_def split: if_splits sum.splits)

lemma push_discordant_cases:
  assumes "push_discordant e aln t = Inr t'"
  shows "(if tid aln \<noteq> region_end_tid t \<or> pos aln - region_end_pos t > max_read_window_size t
          then reads_in_current_region t' = [aln]
               \<and> region_start_tid t' = tid aln \<and> region_start_pos t' = pos aln
          else reads_in_current_region t' = reads_in_current_region t @ [aln]
               \<and> region_start_tid t' = region_start_tid t
               \<and> region_start_pos t' = region_start_pos t)
         \<and> region_end_tid t' = tid aln \<and> region_end_pos t' = pos aln
         \<and> max_read_window_size t' = max_read_window_size t"
proof -
  let ?t1 = "if collecting_normal_reads t
             then t\<lparr>ntotal_nucleotides := ntotal_nucleotides t + query_length aln,
                    max_readlen := max (max_readlen t) (query_length aln)\<rparr>
             else t"
  have b: "do_break aln ?t1
      = (tid aln \<noteq> region_end_tid t \<or> pos aln - region_end_pos t > max_read_window_size t)"
    by (simp add: do_break_def)
  show ?thesis
  proof (cases "do_break aln ?t1")
    case True
    with assms obtain t2 where t2: "process_breakpoint e ?t1 = Inr t2"
      and t': "t' = append_read aln (start_region aln t2)"
      by (cases "process_breakpoint e ?t1") (auto simp: push_discordant_def Let_def)
    from process_breakpoint_frame [OF t2] have "max_read_window_size t2 = max_read_window_size t"
      by simp
    with True b t' show ?thesis
      by (simp add: append_read_def start_region_def Let_def)
  next
    case False
    with assms have "t' = append_read aln ?t1" by (simp add: push_discordant_def Let_def)
    with False b show ?thesis by (simp add: append_read_def Let_def)
  qed
qed

lemma push_discordant_chained:
  assumes "push_discordant e aln t = Inr t'" and "open_region_chained w t"
  shows "open_region_chained w t'"
proof (cases "tid aln \<noteq> region_end_tid t \<or> pos aln - region_end_pos t > max_read_window_size t")
  case True
  with push_discordant_cases [OF assms(1)] assms(2) show ?thesis
    by (simp add: open_region_chained_def)
next
  case False
  with push_discordant_cases [OF assms(1)]
  have r: "reads_in_current_region t' = reads_in_current_region t @ [aln]"
    and e: "region_end_tid t' = tid aln" "region_end_pos t' = pos aln"
    and w: "max_read_window_size t' = max_read_window_size t"
    by simp_all
  from False assms(2) have "reads_in_current_region t \<noteq> [] \<longrightarrow>
      tid aln = tid (last (reads_in_current_region t))
      \<and> pos aln - pos (last (reads_in_current_region t)) \<le> w"
    by (auto simp: open_region_chained_def)
  with assms(2) r e w show ?thesis
    by (simp add: open_region_chained_def gaps_within_snoc)
qed

lemma push_read_chained:
  assumes "push_read e aln t = Inr t'" and "open_region_chained w t"
  shows "open_region_chained w t'"
proof -
  have keep: "open_region_chained w (t\<lparr>rdata := rd\<rparr>)" for rd
    using assms(2) by (simp add: open_region_chained_def)
  have keep2: "open_region_chained w (u\<lparr>nnormal_reads := n\<rparr>)" if "open_region_chained w u" for u n
    using that by (simp add: open_region_chained_def)
  from assms(1) show ?thesis
    using assms(2) keep keep2 push_discordant_chained
    by (auto simp: push_read_def Let_def split: if_splits)
qed

lemma sweep_chained:
  "sweep e alns t = Inr t' \<Longrightarrow> open_region_chained w t \<Longrightarrow> open_region_chained w t'"
proof (induction alns arbitrary: t)
  case Nil
  then show ?case by simp
next
  case (Cons aln alns)
  show ?case
  proof (cases "readgroup_library e (readgroup aln) = []")
    case True
    with Cons show ?thesis by simp
  next
    case False
    let ?a = "set_lib_index (index (library_config_by_name e (readgroup_library e (readgroup aln)))) aln"
    from Cons.prems(1) False obtain t1 where t1: "push_read e ?a t = Inr t1"
      and rest: "sweep e alns t1 = Inr t'"
      by (cases "push_read e ?a t") (auto simp: Let_def)
    from push_read_chained [OF t1 Cons.prems(2)] have "open_region_chained w t1" .
    from Cons.IH [OF rest this] show ?thesis .
  qed
qed

lemma initial_chained: "open_region_chained window (initial_state window)"
  by (simp add: open_region_chained_def initial_state_def)

lemma big_push:
  "bdflag (big qn p i) \<noteq> NA" "bdqual (big qn p i) = 60" "tid (big qn p i) = 0"
  "pos (big qn p i) = p" "query_length (big qn p i) = 4" "readgroup (big qn p i) = ''rg1''"
  "set_lib_index 0 (big qn p i) = big qn p i"
  by (simp_all add: big_def mk_read_def set_lib_index_def)

lemma big_reclassify: "reclassify scenario_opts scenario_lib (big qn p 2000) = big qn p 2000"
  by (simp add: reclassify_def scenario_opts_def scenario_lib_def big_fields Let_def)

lemma scenario_sweep_fields:
  "readgroup_library scenario_env = (\<lambda>g. ''lib1'')"
  "library_config_by_name scenario_env = (\<lambda>n. scenario_lib)"
  "min_map_qual scenario_opts = 35" "transchr_rearrange scenario_opts = False"
  "max_sd scenario_opts = 100000000" "min_len scenario_opts = 7"
  "min_mapping_quality scenario_lib = - 1" "index scenario_lib = 0"
  by (simp_all add: scenario_env_def scenario_opts_def scenario_lib_def)

lemma big_push_read:
  "push_read scenario_env (big qn p 2000) t = push_discordant scenario_env (big qn p 2000) t"
  by (simp add: push_read_def scenario_env_fields scenario_sweep_fields big_push big_fields
        big_reclassify Let_def)

lemma chain_first:
  "push_discordant scenario_env (big ''x'' 0 2000) (initial_state 100)
   = Inr ((initial_state 100)
       \<lparr>region_start_tid := 0, region_start_pos := 0, region_end_tid := 0, region_end_pos := 0,
        collecting_normal_reads := True, reads_in_current_region := [big ''x'' 0 2000]\<rparr>)"
  by (simp add: push_discordant_def do_break_def process_breakpoint_def registers_def
        initial_state_def start_region_def append_read_def scenario_env_fields
        scenario_sweep_fields big_push collapse_accumulated_data_into_last_region_def
        clear_region_accumulator_def clear_flanking_region_accumulator_def empty_rdata_def
        Let_def)

lemma chain_second:
  "push_discordant scenario_env (big ''y'' 100 2000) ((initial_state 100)
       \<lparr>region_start_tid := 0, region_start_pos := 0, region_end_tid := 0, region_end_pos := 0,
        collecting_normal_reads := True, reads_in_current_region := [big ''x'' 0 2000]\<rparr>)
   = Inr ((initial_state 100)
       \<lparr>region_start_tid := 0, region_start_pos := 0, region_end_tid := 0, region_end_pos := 100,
        collecting_normal_reads := True, ntotal_nucleotides := 4, max_readlen := 4,
        reads_in_current_region := [big ''x'' 0 2000, big ''y'' 100 2000]\<rparr>)"
  by (simp add: push_discordant_def do_break_def initial_state_def append_read_def big_push
        clear_region_accumulator_def empty_rdata_def Let_def)

lemma chain_third:
  "push_discordant scenario_env (big ''z'' 200 2000) ((initial_state 100)
       \<lparr>region_start_tid := 0, region_start_pos := 0, region_end_tid := 0, region_end_pos := 100,
        collecting_normal_reads := True, ntotal_nucleotides := 4, max_readlen := 4,
        reads_in_current_region := [big ''x'' 0 2000, big ''y'' 100 2000]\<rparr>)
   = Inr chain_state"
  by (simp add: push_discordant_def do_break_def initial_state_def append_read_def big_push
        clear_region_accumulator_def empty_rdata_def chain_state_def chain_reads_def Let_def)

lemma chain_sweep: "sweep scenario_env chain_reads (initial_state 100) = Inr chain_state"
  by (simp add: chain_reads_def scenario_sweep_fields big_push big_push_read chain_first
        chain_second chain_third Let_def)

lemma chain_state_fields:
  "reads_in_current_region chain_state = chain_reads" "region_start_tid chain_state = 0"
  "region_start_pos chain_state = 0" "region_end_tid chain_state = 0"
  "region_end_pos chain_state = 200" "max_read_window_size chain_state = 100"
  by (simp_all add: chain_state_def initial_state_def)

text \<open>
  C1, amended. At every point of the sweep the reads of the open region form a chain:
  each read lies on the reference of the read before it and at most
  \<^verbatim>\<open>_max_read_window_size\<close> past it, and the end of the region is its last read. The
  window is measured from the last read, not from the start of the region, so the span
  of the open region is not bounded by it. With a discordant read \<^verbatim>\<open>push_read\<close> starts
  a new region, whose start is the read, exactly when the read is on another reference
  than the end of the region or more than the window past it; otherwise the read is
  appended and the start of the region stays. In both cases the read becomes the end of
  the region.
\<close>

theorem sweep_open_region:
  "(sweep e alns (initial_state window) = Inr s \<longrightarrow>
      max_read_window_size s = window
      \<and> gaps_within window (reads_in_current_region s)
      \<and> (reads_in_current_region s \<noteq> [] \<longrightarrow>
            region_end_tid s = tid (last (reads_in_current_region s))
            \<and> region_end_pos s = pos (last (reads_in_current_region s))))
   \<and> (push_discordant e aln t = Inr t' \<longrightarrow>
        (if tid aln \<noteq> region_end_tid t \<or> pos aln - region_end_pos t > max_read_window_size t
         then reads_in_current_region t' = [aln]
              \<and> region_start_tid t' = tid aln \<and> region_start_pos t' = pos aln
         else reads_in_current_region t' = reads_in_current_region t @ [aln]
              \<and> region_start_tid t' = region_start_tid t
              \<and> region_start_pos t' = region_start_pos t)
        \<and> region_end_tid t' = tid aln \<and> region_end_pos t' = pos aln
        \<and> max_read_window_size t' = max_read_window_size t)"
proof -
  have "open_region_chained window s" if "sweep e alns (initial_state window) = Inr s"
    using that initial_chained by (rule sweep_chained)
  then show ?thesis
    using push_discordant_cases [of e aln t t'] by (simp add: open_region_chained_def)
qed

text \<open>
  With a window of 100 the reads at 0, 100 and 200 are swept into one open region.
\<close>

theorem sweep_open_region_witness:
  "sweep scenario_env chain_reads (initial_state 100) = Inr chain_state
   \<and> gaps_within 100 (reads_in_current_region chain_state)
   \<and> region_end_pos chain_state = pos (last (reads_in_current_region chain_state))
   \<and> reads_in_current_region chain_state = chain_reads
   \<and> map pos chain_reads = [0, 100, 200]"
  using sweep_open_region [of scenario_env chain_reads 100 chain_state
      "big ''z'' 200 2000" "(initial_state 100)
       \<lparr>region_start_tid := 0, region_start_pos := 0, region_end_tid := 0, region_end_pos := 100,
        collecting_normal_reads := True, ntotal_nucleotides := 4, max_readlen := 4,
        reads_in_current_region := [big ''x'' 0 2000, big ''y'' 100 2000]\<rparr>" chain_state]
  by (simp add: chain_sweep chain_third chain_state_fields)
     (simp add: chain_reads_def big_push)

text \<open>
  The claim as it is written fails on the same reads: no gap exceeds the window, so the
  region stays open from 0 to 200, a span of twice the window.
\<close>

theorem sweep_open_region_counterexample:
  "sweep scenario_env chain_reads (initial_state 100) = Inr chain_state
   \<and> reads_in_current_region chain_state = chain_reads
   \<and> region_start_tid chain_state = 0 \<and> region_end_tid chain_state = 0
   \<and> region_start_pos chain_state = 0 \<and> region_end_pos chain_state = 200
   \<and> max_read_window_size chain_state = 100
   \<and> \<not> region_end_pos chain_state - region_start_pos chain_state
         \<le> max_read_window_size chain_state"
  by (simp add: chain_sweep chain_state_fields)

end
